theory Spec2Isabelle
  imports Complex_Main
begin

section \<open>JavaScript values\<close>

text \<open>
  The server receives JSON and keeps its state in module-level objects. A number is an
  IEEE double: \<open>Fin x\<close> is the finite double whose exact value is the real \<open>x\<close> (the
  literal \<open>0.1\<close> is the double \<open>3602879701896397 / 2 ^ 55\<close>), next to the two
  infinities and NaN, which \<open>isValidNumber\<close> tests for. Comparison and \<open>Math.abs\<close> are
  exact on doubles; subtraction rounds.
\<close>

datatype jsnum = Fin real | PosInf | NegInf | NaN

text \<open>
  \<open>JUndefined\<close> is an absent property. \<open>JObj\<close> stands for any array or object;
  such a value always comes out of the parse of one request body.
\<close>

datatype jsval = JUndefined | JNull | JBool bool | JNum jsnum | JStr string | JObj

fun isNaN :: "jsnum \<Rightarrow> bool" where
  "isNaN NaN = True"
| "isNaN _ = False"

fun isFinite :: "jsnum \<Rightarrow> bool" where
  "isFinite (Fin _) = True"
| "isFinite _ = False"

text \<open>
  \<open>a - b\<close> on finite doubles is the exact difference rounded to a double (to the
  nearest, ties to even; an infinity on overflow). The rounding of a real other than 0 is
  the parameter \<open>rnd\<close>, so that what is proved holds for the rounding of IEEE 754 as
  for any other; the difference of two equal doubles is 0.
\<close>

definition to_double :: "(real \<Rightarrow> jsnum) \<Rightarrow> real \<Rightarrow> jsnum" where
  "to_double rnd x = (if x = 0 then Fin 0 else rnd x)"

fun num_sub :: "(real \<Rightarrow> jsnum) \<Rightarrow> jsnum \<Rightarrow> jsnum \<Rightarrow> jsnum" where
  "num_sub rnd NaN _ = NaN"
| "num_sub rnd _ NaN = NaN"
| "num_sub rnd (Fin a) (Fin b) = to_double rnd (a - b)"
| "num_sub rnd (Fin _) PosInf = NegInf"
| "num_sub rnd (Fin _) NegInf = PosInf"
| "num_sub rnd PosInf PosInf = NaN"
| "num_sub rnd PosInf _ = PosInf"
| "num_sub rnd NegInf NegInf = NaN"
| "num_sub rnd NegInf _ = NegInf"

fun num_abs :: "jsnum \<Rightarrow> jsnum" where
  "num_abs (Fin a) = Fin \<bar>a\<bar>"
| "num_abs PosInf = PosInf"
| "num_abs NegInf = PosInf"
| "num_abs NaN = NaN"

text \<open>\<open>a < b\<close> on numbers: false as soon as one side is NaN.\<close>

fun num_lt :: "jsnum \<Rightarrow> jsnum \<Rightarrow> bool" where
  "num_lt NaN _ = False"
| "num_lt _ NaN = False"
| "num_lt (Fin a) (Fin b) = (a < b)"
| "num_lt (Fin _) PosInf = True"
| "num_lt (Fin _) NegInf = False"
| "num_lt PosInf _ = False"
| "num_lt NegInf NegInf = False"
| "num_lt NegInf _ = True"

fun num_eq :: "jsnum \<Rightarrow> jsnum \<Rightarrow> bool" where
  "num_eq NaN _ = False"
| "num_eq _ NaN = False"
| "num_eq a b = (a = b)"

definition num_le :: "jsnum \<Rightarrow> jsnum \<Rightarrow> bool" where
  "num_le a b = (num_lt a b \<or> num_eq a b)"

definition num_ge :: "jsnum \<Rightarrow> jsnum \<Rightarrow> bool" where
  "num_ge a b = num_le b a"

text \<open>
  \<open>a === b\<close>: same type and same value; NaN differs from itself; two objects are
  compared by reference, and the objects the server compares come from different parses.
\<close>

fun strict_eq :: "jsval \<Rightarrow> jsval \<Rightarrow> bool" where
  "strict_eq (JNum a) (JNum b) = num_eq a b"
| "strict_eq JObj JObj = False"
| "strict_eq a b = (a = b)"

definition is_number :: "jsval \<Rightarrow> bool" where
  "is_number v = (case v of JNum _ \<Rightarrow> True | _ \<Rightarrow> False)"

text \<open>
  Reading a property of an object literal: an own property, else a member inherited from
  \<open>Object.prototype\<close> (found for the names below, and never \<open>undefined\<close>), else
  \<open>undefined\<close>.
\<close>

datatype 'a property = Own 'a | Inherited | Absent

definition objectPrototypeKeys :: "string list" where
  "objectPrototypeKeys =
     [''constructor'', ''__defineGetter__'', ''__defineSetter__'', ''hasOwnProperty'',
      ''__lookupGetter__'', ''__lookupSetter__'', ''isPrototypeOf'',
      ''propertyIsEnumerable'', ''toString'', ''valueOf'', ''__proto__'',
      ''toLocaleString'']"

definition get_prop :: "(string \<rightharpoonup> 'a) \<Rightarrow> string \<Rightarrow> 'a property" where
  "get_prop obj key =
     (case obj key of
        Some v \<Rightarrow> Own v
      | None \<Rightarrow> if key \<in> set objectPrototypeKeys then Inherited else Absent)"

text \<open>
  Assigning a number to a property: \<open>__proto__\<close> is an accessor of the prototype whose
  setter ignores a number; every other name becomes (or stays) an own property.
\<close>

definition set_prop :: "(string \<rightharpoonup> 'a) \<Rightarrow> string \<Rightarrow> 'a \<Rightarrow> (string \<rightharpoonup> 'a)" where
  "set_prop obj key v =
     (if key = ''__proto__'' \<and> obj key = None then obj else obj(key \<mapsto> v))"

text \<open>
  A response object built key by key (\<open>o[key] = v\<close>): the entries in insertion order.
\<close>

fun obj_set :: "(string \<times> 'a) list \<Rightarrow> string \<Rightarrow> 'a \<Rightarrow> (string \<times> 'a) list" where
  "obj_set [] k v = [(k, v)]"
| "obj_set ((k', v') # kvs) k v =
     (if k' = k then (k, v) # kvs else (k', v') # obj_set kvs k v)"

section \<open>Sensor state\<close>

record reading =
  r_value :: jsval
  r_timestamp :: int

text \<open>
  \<open>latestData\<close> has the five keys of \<open>sensorFields\<close>, each \<open>null\<close> (here
  \<open>None\<close>) or a reading; a timestamp is the ISO string of an instant, kept as its
  milliseconds. \<open>changeThresholds\<close> holds the own properties of that object.
\<close>

record sensor_state =
  latestData :: "string \<rightharpoonup> reading"
  changeThresholds :: "string \<rightharpoonup> jsnum"

definition sensorFields :: "string list" where
  "sensorFields = [''temp'', ''heartrate'', ''movement'', ''lat'', ''lon'']"

text \<open>
  The literals \<open>0.1\<close>, \<open>1\<close>, \<open>0.5\<close> and \<open>0.0001\<close> of the source, as the doubles
  they denote.
\<close>

definition initialThresholds :: "string \<rightharpoonup> jsnum" where
  "initialThresholds =
     [''temp'' \<mapsto> Fin (3602879701896397 / 2 ^ 55), ''heartrate'' \<mapsto> Fin 1,
      ''movement'' \<mapsto> Fin (1 / 2),
      ''lat'' \<mapsto> Fin (7378697629483821 / 2 ^ 66),
      ''lon'' \<mapsto> Fin (7378697629483821 / 2 ^ 66)]"

definition initialSensorState :: sensor_state where
  "initialSensorState =
     \<lparr>latestData = Map.empty, changeThresholds = initialThresholds\<rparr>"

definition validMovements :: "string list" where
  "validMovements = [''sitting'', ''standing'', ''walking'']"

subsection \<open>Validation functions\<close>

definition isValidNumber :: "jsval \<Rightarrow> bool" where
  "isValidNumber v = (case v of JNum n \<Rightarrow> \<not> isNaN n \<and> isFinite n | _ \<Rightarrow> False)"

definition isValidMovement :: "jsval \<Rightarrow> bool" where
  "isValidMovement v = (case v of JStr s \<Rightarrow> s \<in> set validMovements | _ \<Rightarrow> False)"

definition isValidCoordinate :: "jsval \<Rightarrow> bool" where
  "isValidCoordinate v =
     (isValidNumber v \<and> (case v of JNum n \<Rightarrow> num_le (num_abs n) (Fin 180) | _ \<Rightarrow> False))"

subsection \<open>The change detector\<close>

text \<open>
  \<open>x >= changeThresholds[sensorType]\<close>: the right side is converted to a number, which
  is NaN for \<open>undefined\<close> and for a member of the prototype, so the test fails there.
\<close>

definition ge_threshold :: "jsnum \<Rightarrow> jsnum property \<Rightarrow> bool" where
  "ge_threshold x t = (case t of Own n \<Rightarrow> num_ge x n | Inherited \<Rightarrow> False | Absent \<Rightarrow> False)"

definition hasDataChanged ::
  "(real \<Rightarrow> jsnum) \<Rightarrow> (string \<rightharpoonup> jsnum) \<Rightarrow> string \<Rightarrow> jsval \<Rightarrow> jsval \<Rightarrow> bool" where
  "hasDataChanged rnd thresholds sensorType newValue oldValue =
     (if oldValue = JUndefined \<or> oldValue = JNull then True
      else if newValue = JUndefined \<or> newValue = JNull then False
      else if \<not> is_number newValue \<or> \<not> is_number oldValue
        then \<not> strict_eq newValue oldValue
      else (case (newValue, oldValue) of
              (JNum a, JNum b) \<Rightarrow>
                ge_threshold (num_abs (num_sub rnd a b)) (get_prop thresholds sensorType)
            | _ \<Rightarrow> False))"


subsection \<open>The sensor state store\<close>

text \<open>
  \<open>latestData[key]?.value !== undefined ? latestData[key].value : latestData[key]\<close>:
  \<open>null\<close> for a field never stored, else the stored value (the stored reading itself
  when its value is \<open>undefined\<close>, which \<open>updateChangedFields\<close> never stores).
\<close>

definition oldValueOf :: "reading option \<Rightarrow> jsval" where
  "oldValueOf cur =
     (case cur of
        None \<Rightarrow> JNull
      | Some r \<Rightarrow> if r_value r \<noteq> JUndefined then r_value r else JObj)"

text \<open>
  The body of the \<open>forEach\<close> of \<open>updateChangedFields\<close>. The clock is read once for
  each stored key: \<open>clk key\<close> is that reading.
\<close>

definition updateField ::
  "(real \<Rightarrow> jsnum) \<Rightarrow> (string \<Rightarrow> int) \<Rightarrow> string \<times> jsval \<Rightarrow>
   sensor_state \<times> (string \<times> reading) list \<times> bool \<Rightarrow>
   sensor_state \<times> (string \<times> reading) list \<times> bool" where
  "updateField rnd clk kv acc =
     (case (kv, acc) of ((key, newValue), (s, changedFields, hasChanges)) \<Rightarrow>
        if newValue \<noteq> JUndefined \<and> newValue \<noteq> JNull then
          (if hasDataChanged rnd (changeThresholds s) key newValue
                (oldValueOf (latestData s key))
           then
             let r = \<lparr>r_value = newValue, r_timestamp = clk key\<rparr>
             in (s\<lparr>latestData := (latestData s)(key \<mapsto> r)\<rparr>,
                 obj_set changedFields key r, True)
           else (s, changedFields, hasChanges))
        else (s, changedFields, hasChanges))"

definition updateChangedFields ::
  "(real \<Rightarrow> jsnum) \<Rightarrow> (string \<Rightarrow> int) \<Rightarrow> (string \<times> jsval) list \<Rightarrow> sensor_state \<Rightarrow>
   sensor_state \<times> (string \<times> reading) list option" where
  "updateChangedFields rnd clk newData s =
     (case fold (updateField rnd clk) newData (s, [], False) of
        (s', changedFields, hasChanges) \<Rightarrow>
          (s', if hasChanges then Some changedFields else None))"

subsection \<open>Validation of a submitted reading\<close>

record sensor_data =
  d_temp :: jsval
  d_heartrate :: jsval
  d_movement :: jsval
  d_lat :: jsval
  d_lon :: jsval

definition lt_zero :: "jsval \<Rightarrow> bool" where
  "lt_zero v = (case v of JNum n \<Rightarrow> num_lt n (Fin 0) | _ \<Rightarrow> False)"

definition validateSensorData :: "sensor_data \<Rightarrow> string list" where
  "validateSensorData d =
     (if d_temp d \<noteq> JUndefined \<and> \<not> isValidNumber (d_temp d)
        then [''Temperature must be a valid number''] else [])
     @ (if d_heartrate d \<noteq> JUndefined
           \<and> (\<not> isValidNumber (d_heartrate d) \<or> lt_zero (d_heartrate d))
        then [''Heart rate must be a valid positive number''] else [])
     @ (if d_movement d \<noteq> JUndefined \<and> \<not> isValidMovement (d_movement d)
        then [''Movement must be one of: sitting, standing, walking''] else [])
     @ (if d_lat d \<noteq> JUndefined \<and> \<not> isValidCoordinate (d_lat d)
        then [''Latitude must be a valid coordinate between -180 and 180''] else [])
     @ (if d_lon d \<noteq> JUndefined \<and> \<not> isValidCoordinate (d_lon d)
        then [''Longitude must be a valid coordinate between -180 and 180''] else [])"

subsection \<open>POST /api/data\<close>

text \<open>
  Every response carries the instant of its generation, the last component of each
  response value. A 400 response has a message and, for a failed validation, the errors.
\<close>

datatype data_response =
    DataBadRequest string "string list" int
  | DataProcessed "(string \<times> reading) list" int
  | DataNoChange int

definition receivedDataOf :: "sensor_data \<Rightarrow> (string \<times> jsval) list" where
  "receivedDataOf d =
     (if d_temp d \<noteq> JUndefined then [(''temp'', d_temp d)] else [])
     @ (if d_heartrate d \<noteq> JUndefined then [(''heartrate'', d_heartrate d)] else [])
     @ (if d_movement d \<noteq> JUndefined then [(''movement'', d_movement d)] else [])
     @ (if d_lat d \<noteq> JUndefined then [(''lat'', d_lat d)] else [])
     @ (if d_lon d \<noteq> JUndefined then [(''lon'', d_lon d)] else [])"

text \<open>
  The body is \<open>None\<close> when it is missing or no object; else the five destructured
  fields, \<open>JUndefined\<close> for an absent one. \<open>rnd\<close> is the rounding of the subtraction
  in \<open>hasDataChanged\<close>.
\<close>

definition postData ::
  "(real \<Rightarrow> jsnum) \<Rightarrow> (string \<Rightarrow> int) \<Rightarrow> int \<Rightarrow> sensor_data option \<Rightarrow> sensor_state \<Rightarrow>
   sensor_state \<times> data_response" where
  "postData rnd clk now body s =
     (case body of
        None \<Rightarrow> (s, DataBadRequest ''Invalid request body'' [] now)
      | Some d \<Rightarrow>
          let validationErrors = validateSensorData d in
          if validationErrors \<noteq> [] then
            (s, DataBadRequest ''Validation failed'' validationErrors now)
          else
            let receivedData = receivedDataOf d in
            if receivedData = [] then (s, DataBadRequest ''No valid data received'' [] now)
            else
              (case updateChangedFields rnd clk receivedData s of
                 (s', Some changedFields) \<Rightarrow> (s', DataProcessed changedFields now)
               | (s', None) \<Rightarrow> (s', DataNoChange now)))"

subsection \<open>POST /api/getData\<close>

text \<open>
  What the handler makes of \<open>lastUpdate\<close>: a falsy value (absent, \<open>null\<close>, the empty
  string, 0) takes the snapshot branch; a truthy one is given to \<open>new Date\<close>, which
  yields an invalid date or an instant in milliseconds.
\<close>

datatype lastUpdate_arg = Falsy | InvalidDate | Instant int

datatype getData_response =
    GetDataBadRequest string int
  | GetData "(string \<times> reading) list" bool int

text \<open>
  The delta branch runs over \<open>Object.keys(latestData)\<close>, the five sensor fields. A
  stored timestamp is a non-empty string, so the test of its truth always passes. In the
  snapshot branch every stored entry is a reading (an object with a value), so it is
  returned as it is.
\<close>

definition changedSince :: "(string \<rightharpoonup> reading) \<Rightarrow> int \<Rightarrow> (string \<times> reading) list" where
  "changedSince ld lastUpdateDate =
     concat (map (\<lambda>key.
        case ld key of
          Some r \<Rightarrow> if r_timestamp r > lastUpdateDate then [(key, r)] else []
        | None \<Rightarrow> []) sensorFields)"

definition currentData :: "(string \<rightharpoonup> reading) \<Rightarrow> (string \<times> reading) list" where
  "currentData ld =
     concat (map (\<lambda>key. case ld key of Some r \<Rightarrow> [(key, r)] | None \<Rightarrow> []) sensorFields)"

definition getData_post ::
  "int \<Rightarrow> lastUpdate_arg \<Rightarrow> sensor_state \<Rightarrow> getData_response" where
  "getData_post now lastUpdate s =
     (case lastUpdate of
        InvalidDate \<Rightarrow>
          GetDataBadRequest ''Invalid lastUpdate format. Use ISO 8601 format.'' now
      | Instant lastUpdateDate \<Rightarrow>
          (let changedSinceLastUpdate = changedSince (latestData s) lastUpdateDate
           in GetData changedSinceLastUpdate (length changedSinceLastUpdate = 0) now)
      | Falsy \<Rightarrow> GetData (currentData (latestData s)) True now)"

subsection \<open>POST /api/thresholds\<close>

text \<open>
  The body is an array (refused) or an object, given by its entries in the order of
  \<open>Object.keys\<close>. The response repeats the whole of \<open>changeThresholds\<close>, which is
  the state returned.
\<close>

datatype thresholds_body = BodyArray | BodyObject "(string \<times> jsval) list"

datatype thresholds_response =
    ThresholdsBadRequest string int
  | ThresholdsUpdated nat int

definition ge_zero :: "jsval \<Rightarrow> bool" where
  "ge_zero v = (case v of JNum n \<Rightarrow> num_ge n (Fin 0) | _ \<Rightarrow> False)"

definition applyThreshold ::
  "string \<times> jsval \<Rightarrow> (string \<rightharpoonup> jsnum) \<times> nat \<Rightarrow> (string \<rightharpoonup> jsnum) \<times> nat" where
  "applyThreshold kv acc =
     (case (kv, acc) of ((key, v), (thr, updatedCount)) \<Rightarrow>
        if get_prop thr key \<noteq> Absent \<and> isValidNumber v \<and> ge_zero v then
          (case v of
             JNum n \<Rightarrow> (set_prop thr key n, Suc updatedCount)
           | _ \<Rightarrow> (thr, updatedCount))
        else (thr, updatedCount))"

definition postThresholds ::
  "int \<Rightarrow> thresholds_body \<Rightarrow> sensor_state \<Rightarrow> sensor_state \<times> thresholds_response" where
  "postThresholds now body s =
     (case body of
        BodyArray \<Rightarrow> (s, ThresholdsBadRequest ''Thresholds must be provided as an object'' now)
      | BodyObject newThresholds \<Rightarrow>
          (case fold applyThreshold newThresholds (changeThresholds s, 0) of
             (thr, updatedCount) \<Rightarrow>
               (s\<lparr>changeThresholds := thr\<rparr>, ThresholdsUpdated updatedCount now)))"

section \<open>Device commands\<close>

record device_commands =
  buzzer :: bool
  led :: bool

text \<open>\<open>commandUpdate\<close>: the object that receives the changed fields only.\<close>

record command_update =
  cu_buzzer :: "bool option"
  cu_led :: "bool option"

record pending_command =
  pc_id :: string
  pc_commands :: command_update
  pc_timestamp :: int

text \<open>
  A response handle \<open>res\<close> is an object of its own for every request: a natural
  number here. A listener holds the handle of its parked long-poll request.
\<close>

record listener =
  l_res :: nat
  l_timestamp :: int

text \<open>
  The JSON bodies of the command endpoints: a queued command (commands, commandId,
  timestamp) or the current commands (commands, timestamp), each with the flag the
  endpoint adds; the answer to \<open>POST /api/deviceCommand\<close> (commands, updated,
  timestamp); a failure (status, message, timestamp); the count of cleared commands.
\<close>

datatype flag = NoFlag | ImmediateFlag | TimeoutFlag | NewCommandsFlag bool

datatype body =
    CommandBody command_update string int flag
  | SnapshotBody device_commands int flag
  | UpdatedBody device_commands bool int
  | ErrorBody nat string int
  | ClearedBody nat int

text \<open>
  The module-level state of the command endpoints, with what the endpoints do to the
  world: \<open>sent\<close> records every call \<open>res.json(body)\<close> with its handle, in order,
  whether or not the handle was answered before (\<open>headersSent\<close>; such a call throws
  and sends nothing, and \<open>notifyCommandListeners\<close> catches it);
  \<open>timers\<close> the timers set by \<open>res.setTimeout\<close> with their delay;
  \<open>next_res\<close> is the handle of the next request.
\<close>

record command_state =
  deviceCommands :: device_commands
  pendingCommands :: "pending_command list"
  commandListeners :: "listener list"
  sent :: "(nat \<times> body) list"
  timers :: "(nat \<times> int) list"
  next_res :: nat

definition initialCommandState :: command_state where
  "initialCommandState =
     \<lparr>deviceCommands = \<lparr>buzzer = False, led = False\<rparr>, pendingCommands = [],
      commandListeners = [], sent = [], timers = [], next_res = 0\<rparr>"

definition res_json :: "nat \<Rightarrow> body \<Rightarrow> command_state \<Rightarrow> command_state" where
  "res_json res b s = s\<lparr>sent := sent s @ [(res, b)]\<rparr>"

definition headersSent :: "nat \<Rightarrow> command_state \<Rightarrow> bool" where
  "headersSent res s = (res \<in> set (map fst (sent s)))"

subsection \<open>POST /api/deviceCommand\<close>

text \<open>
  The two blocks that check and apply one field each. \<open>None\<close> is the early return
  with status 400; the state is threaded through, so what the first block has stored
  is in the state the second block starts from.
\<close>

definition applyBuzzer ::
  "jsval \<Rightarrow> command_state \<times> command_update \<times> bool \<Rightarrow>
   (command_state \<times> command_update \<times> bool) option" where
  "applyBuzzer v acc =
     (case acc of (s, commandUpdate, updated) \<Rightarrow>
        if v \<noteq> JUndefined then
          (case v of
             JBool b \<Rightarrow>
               if buzzer (deviceCommands s) \<noteq> b then
                 Some (s\<lparr>deviceCommands := (deviceCommands s)\<lparr>buzzer := b\<rparr>\<rparr>,
                       commandUpdate\<lparr>cu_buzzer := Some b\<rparr>, True)
               else Some (s, commandUpdate, updated)
           | _ \<Rightarrow> None)
        else Some (s, commandUpdate, updated))"

definition applyLed ::
  "jsval \<Rightarrow> command_state \<times> command_update \<times> bool \<Rightarrow>
   (command_state \<times> command_update \<times> bool) option" where
  "applyLed v acc =
     (case acc of (s, commandUpdate, updated) \<Rightarrow>
        if v \<noteq> JUndefined then
          (case v of
             JBool b \<Rightarrow>
               if led (deviceCommands s) \<noteq> b then
                 Some (s\<lparr>deviceCommands := (deviceCommands s)\<lparr>led := b\<rparr>\<rparr>,
                       commandUpdate\<lparr>cu_led := Some b\<rparr>, True)
               else Some (s, commandUpdate, updated)
           | _ \<Rightarrow> None)
        else Some (s, commandUpdate, updated))"

text \<open>
  \<open>notifyCommandListeners\<close>: one \<open>res.json\<close> for every listener, then the registry is
  emptied. The queue is not touched.
\<close>

definition notifyCommandListeners :: "pending_command \<Rightarrow> command_state \<Rightarrow> command_state" where
  "notifyCommandListeners command s =
     (fold (\<lambda>l. res_json (l_res l)
              (CommandBody (pc_commands command) (pc_id command) (pc_timestamp command) NoFlag))
        (commandListeners s) s)\<lparr>commandListeners := []\<rparr>"

text \<open>
  The handler: \<open>res\<close> is the handle of the request, \<open>newId\<close> the value of
  \<open>Date.now() + Math.random().toString(36).substr(2, 9)\<close>, \<open>now\<close> the clock.
\<close>

definition deviceCommand_post ::
  "nat \<Rightarrow> jsval \<Rightarrow> jsval \<Rightarrow> string \<Rightarrow> int \<Rightarrow> command_state \<Rightarrow> command_state" where
  "deviceCommand_post res bz ld newId now s =
     (if bz = JUndefined \<and> ld = JUndefined then
        res_json res
          (ErrorBody 400 ''At least one command (buzzer or led) must be provided'' now) s
      else
        (case applyBuzzer bz (s, \<lparr>cu_buzzer = None, cu_led = None\<rparr>, False) of
           None \<Rightarrow> res_json res (ErrorBody 400 ''Buzzer value must be boolean'' now) s
         | Some acc1 \<Rightarrow>
             (case applyLed ld acc1 of
                None \<Rightarrow> res_json res (ErrorBody 400 ''LED value must be boolean'' now) (fst acc1)
              | Some (s2, commandUpdate, updated) \<Rightarrow>
                  let s3 =
                    (if updated then
                       let newCommand =
                         \<lparr>pc_id = newId, pc_commands = commandUpdate, pc_timestamp = now\<rparr>
                       in notifyCommandListeners newCommand
                            (s2\<lparr>pendingCommands := pendingCommands s2 @ [newCommand]\<rparr>)
                     else s2)
                  in res_json res (UpdatedBody (deviceCommands s3) updated now) s3)))"

subsection \<open>GET /api/getDeviceCommand\<close>

text \<open>
  \<open>req.query.timeout ? parseInt(req.query.timeout) : 30000\<close>: the query has no
  \<open>timeout\<close> (or an empty one), or \<open>parseInt\<close> yields NaN, or it yields an integer.
  \<open>immediate\<close> is \<open>req.query.immediate === 'true'\<close>.
\<close>

datatype timeout_query = NoTimeout | TimeoutNaN | TimeoutMs int

definition timeoutOf :: "timeout_query \<Rightarrow> int option" where
  "timeoutOf timeoutQuery =
     (case timeoutQuery of
        NoTimeout \<Rightarrow> Some 30000
      | TimeoutNaN \<Rightarrow> None
      | TimeoutMs t \<Rightarrow> Some t)"

text \<open>
  \<open>res.setTimeout(msecs, callback)\<close> of the runtime, \<open>msecs\<close> being \<open>None\<close> for
  NaN: it throws (here \<open>None\<close>) for NaN and for a negative delay, after it has
  attached the callback, which no timer will call; a delay of 0 sets no timer either; a
  positive delay sets the timer, with at most \<open>2 ^ 31 - 1\<close> milliseconds.
\<close>

definition res_setTimeout :: "nat \<Rightarrow> int option \<Rightarrow> command_state \<Rightarrow> command_state option" where
  "res_setTimeout res msecs s =
     (case msecs of
        None \<Rightarrow> None
      | Some t \<Rightarrow>
          if t < 0 then None
          else if t = 0 then Some s
          else Some (s\<lparr>timers := timers s @ [(res, min t 2147483647)]\<rparr>))"

text \<open>
  The handler. The listener is pushed before the timer is set; when setting the timer
  throws, the \<open>catch\<close> of the handler answers 500 and the listener stays where it is.
\<close>

definition getDeviceCommand ::
  "nat \<Rightarrow> timeout_query \<Rightarrow> bool \<Rightarrow> int \<Rightarrow> command_state \<Rightarrow> command_state" where
  "getDeviceCommand res timeoutQuery immediate now s =
     (let timeout = timeoutOf timeoutQuery in
      if immediate \<or> length (pendingCommands s) > 0 then
        (case pendingCommands s of
           latestCommand # queue \<Rightarrow>
             res_json res
               (CommandBody (pc_commands latestCommand) (pc_id latestCommand)
                  (pc_timestamp latestCommand) ImmediateFlag)
               (s\<lparr>pendingCommands := queue\<rparr>)
         | [] \<Rightarrow> res_json res (SnapshotBody (deviceCommands s) now ImmediateFlag) s)
      else
        (let s1 = s\<lparr>commandListeners :=
                      commandListeners s @ [\<lparr>l_res = res, l_timestamp = now\<rparr>]\<rparr>
         in case res_setTimeout res timeout s1 of
              Some s2 \<Rightarrow> s2
            | None \<Rightarrow>
                if \<not> headersSent res s1
                then res_json res (ErrorBody 500 ''Internal server error'' now) s1
                else s1))"

text \<open>
  The callback given to \<open>res.setTimeout\<close> by the request of handle \<open>res\<close>: the
  listener of that request is filtered out, and the request is answered unless it has
  been answered already.
\<close>

definition onTimeout :: "nat \<Rightarrow> int \<Rightarrow> command_state \<Rightarrow> command_state" where
  "onTimeout res now s =
     (let s1 = s\<lparr>commandListeners := filter (\<lambda>l. l_res l \<noteq> res) (commandListeners s)\<rparr>
      in if \<not> headersSent res s1
         then res_json res (SnapshotBody (deviceCommands s1) now TimeoutFlag) s1
         else s1)"

subsection \<open>GET /api/pollDeviceCommand and POST /api/clearPendingCommands\<close>

definition pollDeviceCommand :: "nat \<Rightarrow> int \<Rightarrow> command_state \<Rightarrow> command_state" where
  "pollDeviceCommand res now s =
     (case pendingCommands s of
        latestCommand # queue \<Rightarrow>
          res_json res
            (CommandBody (pc_commands latestCommand) (pc_id latestCommand)
               (pc_timestamp latestCommand) (NewCommandsFlag True))
            (s\<lparr>pendingCommands := queue\<rparr>)
      | [] \<Rightarrow> res_json res (SnapshotBody (deviceCommands s) now (NewCommandsFlag False)) s)"

definition clearPendingCommands :: "nat \<Rightarrow> int \<Rightarrow> command_state \<Rightarrow> command_state" where
  "clearPendingCommands res now s =
     (let count = length (pendingCommands s)
      in res_json res (ClearedBody count now)
           (s\<lparr>pendingCommands := [], commandListeners := []\<rparr>))"

subsection \<open>Runs of the command endpoints\<close>

text \<open>
  What can happen to the command state: a request to one of the four endpoints, which
  gets a fresh handle, or the timer of a parked request firing. (A shutdown answers the
  registered listeners and ends the process, hence the run.)
\<close>

datatype event =
    SetCommand jsval jsval string int
  | LongPoll timeout_query bool int
  | Poll int
  | ClearPending int
  | TimerFires nat int

definition fresh_res :: "command_state \<Rightarrow> command_state" where
  "fresh_res s = s\<lparr>next_res := Suc (next_res s)\<rparr>"

fun step :: "event \<Rightarrow> command_state \<Rightarrow> command_state" where
  "step (SetCommand bz ld newId now) s =
     deviceCommand_post (next_res s) bz ld newId now (fresh_res s)"
| "step (LongPoll timeoutQuery immediate now) s =
     getDeviceCommand (next_res s) timeoutQuery immediate now (fresh_res s)"
| "step (Poll now) s = pollDeviceCommand (next_res s) now (fresh_res s)"
| "step (ClearPending now) s = clearPendingCommands (next_res s) now (fresh_res s)"
| "step (TimerFires res now) s =
     (if res \<in> set (map fst (timers s)) then onTimeout res now s else s)"

fun run :: "event list \<Rightarrow> command_state \<Rightarrow> command_state" where
  "run [] s = s"
| "run (e # es) s = run es (step e s)"

text \<open>
  Reading the log: the ids of the queued commands handed out by a dequeuing consumer
  (a plain poll, or a long poll that finds the queue non-empty), and of those handed to
  parked listeners by \<open>notifyCommandListeners\<close>.
\<close>

fun dequeued_id :: "nat \<times> body \<Rightarrow> string list" where
  "dequeued_id (res, CommandBody c cid ts ImmediateFlag) = [cid]"
| "dequeued_id (res, CommandBody c cid ts (NewCommandsFlag nc)) = [cid]"
| "dequeued_id _ = []"

fun notified_id :: "nat \<times> body \<Rightarrow> string list" where
  "notified_id (res, CommandBody c cid ts NoFlag) = [cid]"
| "notified_id _ = []"

definition dequeued :: "(nat \<times> body) list \<Rightarrow> string list" where
  "dequeued entries = concat (map dequeued_id entries)"

definition notified :: "(nat \<times> body) list \<Rightarrow> string list" where
  "notified entries = concat (map notified_id entries)"

fun issued_id :: "event \<Rightarrow> string list" where
  "issued_id (SetCommand bz ld newId now) = [newId]"
| "issued_id _ = []"

definition issued :: "event list \<Rightarrow> string list" where
  "issued evs = concat (map issued_id evs)"

subsection \<open>Invariants of the runs\<close>

text \<open>
  The long polls whose timeout sets a timer: no \<open>timeout\<close> in the query, or a positive
  one.
\<close>

fun sets_timer :: "event \<Rightarrow> bool" where
  "sets_timer (LongPoll NoTimeout immediate now) = True"
| "sets_timer (LongPoll TimeoutNaN immediate now) = False"
| "sets_timer (LongPoll (TimeoutMs t) immediate now) = (0 < t)"
| "sets_timer _ = True"

text \<open>
  Handles: no handle is answered twice, a registered listener is not answered yet and has
  its timer, and every handle in use is below \<open>next_res\<close>.
\<close>

definition handles_inv ::
  "(nat \<times> body) list \<Rightarrow> listener list \<Rightarrow> (nat \<times> int) list \<Rightarrow> nat \<Rightarrow> bool" where
  "handles_inv snt ls ts n =
     (distinct (map fst snt @ map l_res ls)
      \<and> list_all (\<lambda>e. fst e < n) snt
      \<and> list_all (\<lambda>l. l_res l < n) ls
      \<and> list_all (\<lambda>t. fst t < n) ts
      \<and> list_all (\<lambda>l. l_res l \<in> set (map fst ts)) ls)"

definition handles_ok :: "command_state \<Rightarrow> bool" where
  "handles_ok s = handles_inv (sent s) (commandListeners s) (timers s) (next_res s)"

text \<open>
  Queue: the ids still queued and the ids handed out by dequeuing consumers are all
  different, and all of them were issued (\<open>ids\<close>).
\<close>

definition queue_inv :: "string list \<Rightarrow> pending_command list \<Rightarrow> (nat \<times> body) list \<Rightarrow> bool" where
  "queue_inv ids queue snt =
     (distinct (map pc_id queue @ dequeued snt)
      \<and> list_all (\<lambda>c. c \<in> set ids) (map pc_id queue @ dequeued snt))"

definition queue_ok :: "string list \<Rightarrow> command_state \<Rightarrow> bool" where
  "queue_ok ids s = queue_inv ids (pendingCommands s) (sent s)"

section \<open>The change detector (C1)\<close>

lemma hasDataChanged_first:
  "oldValue = JUndefined \<or> oldValue = JNull \<Longrightarrow> hasDataChanged rnd thr f newValue oldValue"
  by (simp add: hasDataChanged_def)

lemma hasDataChanged_absent:
  "oldValue \<noteq> JUndefined \<Longrightarrow> oldValue \<noteq> JNull \<Longrightarrow> newValue = JUndefined \<or> newValue = JNull
   \<Longrightarrow> \<not> hasDataChanged rnd thr f newValue oldValue"
  by (simp add: hasDataChanged_def)

lemma hasDataChanged_categorical:
  "hasDataChanged rnd thr f (JStr a) (JStr b) = (a \<noteq> b)"
  by (simp add: hasDataChanged_def is_number_def)

lemma hasDataChanged_numbers:
  "thr f = Some t \<Longrightarrow>
   hasDataChanged rnd thr f (JNum a) (JNum b) = num_ge (num_abs (num_sub rnd a b)) t"
  by (simp add: hasDataChanged_def is_number_def get_prop_def ge_threshold_def)

lemma hasDataChanged_exact:
  "thr f = Some (Fin t) \<Longrightarrow> num_sub rnd (Fin a) (Fin b) = Fin (a - b) \<Longrightarrow>
   hasDataChanged rnd thr f (JNum (Fin a)) (JNum (Fin b)) = (\<bar>a - b\<bar> \<ge> t)"
  by (auto simp: hasDataChanged_numbers num_ge_def num_le_def)

lemma hasDataChanged_same:
  "thr f = Some (Fin t) \<Longrightarrow>
   hasDataChanged rnd thr f (JNum (Fin a)) (JNum (Fin a)) = (t \<le> 0)"
  by (auto simp: hasDataChanged_numbers to_double_def num_ge_def num_le_def)

lemma hasDataChanged_beyond:
  assumes "thr f = Some (Fin t)"
    and "\<forall>d. t \<le> \<bar>d\<bar> \<longrightarrow> num_ge (num_abs (rnd d)) (Fin t)"
    and "t \<le> \<bar>x - y\<bar>"
  shows "hasDataChanged rnd thr f (JNum (Fin x)) (JNum (Fin y))"
proof (cases "x - y = 0")
  case True
  then show ?thesis
    using assms(1,3)
    by (auto simp: hasDataChanged_numbers to_double_def num_ge_def num_le_def)
next
  case False
  then show ?thesis
    using assms by (simp add: hasDataChanged_numbers to_double_def)
qed

text \<open>
  C1. The change detector is a function of its arguments only (the thresholds, the field
  and the two values, with the rounding of the subtraction): deterministic, with no
  effect on any state. For every field: an unset old value (\<open>undefined\<close> or \<open>null\<close>)
  is always significant; with a set old value, an unset new value never is; for the
  categorical field, whose values are strings, the result is \<open>newValue \<noteq> oldValue\<close>;
  for a numeric field with threshold \<open>t\<close> it is
  \<open>Math.abs(newValue - oldValue) >= t\<close> in the arithmetic of doubles, where the
  difference is rounded; whenever the difference of the two doubles is a double itself
  (the subtraction is exact), this is \<open>\<bar>newValue - oldValue\<bar> \<ge> t\<close>; and under a
  rounding that takes no real of magnitude at least \<open>t\<close> to a double of smaller
  magnitude (as rounding to the nearest double does, \<open>t\<close> being a double), a value at
  or beyond the threshold is significant.
\<close>

theorem C1_isSignificant:
  "(oldValue = JUndefined \<or> oldValue = JNull \<longrightarrow> hasDataChanged rnd thr f newValue oldValue)
   \<and> (oldValue \<noteq> JUndefined \<and> oldValue \<noteq> JNull \<and> (newValue = JUndefined \<or> newValue = JNull)
        \<longrightarrow> \<not> hasDataChanged rnd thr f newValue oldValue)
   \<and> hasDataChanged rnd thr f (JStr a) (JStr b) = (a \<noteq> b)
   \<and> (thr f = Some n \<longrightarrow>
        hasDataChanged rnd thr f (JNum m) (JNum m') = num_ge (num_abs (num_sub rnd m m')) n)
   \<and> (thr f = Some (Fin t) \<and> num_sub rnd (Fin x) (Fin y) = Fin (x - y) \<longrightarrow>
        hasDataChanged rnd thr f (JNum (Fin x)) (JNum (Fin y)) = (\<bar>x - y\<bar> \<ge> t))
   \<and> (thr f = Some (Fin t) \<and> (\<forall>d. t \<le> \<bar>d\<bar> \<longrightarrow> num_ge (num_abs (rnd d)) (Fin t))
        \<and> t \<le> \<bar>x - y\<bar> \<longrightarrow>
        hasDataChanged rnd thr f (JNum (Fin x)) (JNum (Fin y)))"
  using hasDataChanged_first [of oldValue rnd thr f newValue]
    hasDataChanged_absent [of oldValue newValue rnd thr f]
    hasDataChanged_categorical [of rnd thr f a b]
    hasDataChanged_numbers [of thr f n rnd m m']
    hasDataChanged_exact [of thr f t rnd x y]
    hasDataChanged_beyond [of thr f t rnd x y]
  by blast

text \<open>
  The instances: a first observation; an absent new value; the movement state changing
  and staying; heart rates 70.5 and 71 against a stored 70 under the threshold 1 (both
  differences are doubles, so any rounding returns them; here \<open>Fin\<close>); NaN; and 1
  against a stored \<open>2 ^ -60\<close>, whose difference IEEE 754 rounds to 1: with a rounding
  that does so, the detector answers true, as the code does; and 3 against a stored 2
  under the same rounding, a difference at the threshold.
\<close>

theorem C1_isSignificant_witness:
  "hasDataChanged Fin initialThresholds ''temp'' (JNum (Fin 36.5)) JNull
   \<and> \<not> hasDataChanged Fin initialThresholds ''temp'' JUndefined (JNum (Fin 36.5))
   \<and> hasDataChanged Fin initialThresholds ''movement'' (JStr ''walking'') (JStr ''sitting'')
   \<and> \<not> hasDataChanged Fin initialThresholds ''movement'' (JStr ''walking'') (JStr ''walking'')
   \<and> \<not> hasDataChanged Fin initialThresholds ''heartrate'' (JNum (Fin 70.5)) (JNum (Fin 70))
   \<and> hasDataChanged Fin initialThresholds ''heartrate'' (JNum (Fin 71)) (JNum (Fin 70))
   \<and> \<not> hasDataChanged Fin initialThresholds ''heartrate'' (JNum NaN) (JNum (Fin 70))
   \<and> hasDataChanged (\<lambda>d. if d = 1 - 1 / 2 ^ 60 then Fin 1 else Fin d) initialThresholds
        ''heartrate'' (JNum (Fin 1)) (JNum (Fin (1 / 2 ^ 60)))
   \<and> hasDataChanged (\<lambda>d. if d = 1 - 1 / 2 ^ 60 then Fin 1 else Fin d) initialThresholds
        ''heartrate'' (JNum (Fin 3)) (JNum (Fin 2))"
proof -
  have thr: "initialThresholds ''heartrate'' = Some (Fin 1)"
    by (simp add: initialThresholds_def)
  have "hasDataChanged Fin initialThresholds ''temp'' (JNum (Fin 36.5)) JNull"
    using C1_isSignificant [where oldValue = JNull] by simp
  moreover have "\<not> hasDataChanged Fin initialThresholds ''temp'' JUndefined (JNum (Fin 36.5))"
    using C1_isSignificant [where oldValue = "JNum (Fin 36.5)" and newValue = JUndefined]
    by simp
  moreover have
    "hasDataChanged Fin initialThresholds ''movement'' (JStr ''walking'') (JStr ''sitting'')"
    "\<not> hasDataChanged Fin initialThresholds ''movement'' (JStr ''walking'') (JStr ''walking'')"
    using C1_isSignificant [where a = "''walking''" and b = "''sitting''"]
      C1_isSignificant [where a = "''walking''" and b = "''walking''"]
    by simp_all
  moreover have
    "\<not> hasDataChanged Fin initialThresholds ''heartrate'' (JNum (Fin 70.5)) (JNum (Fin 70))"
    "hasDataChanged Fin initialThresholds ''heartrate'' (JNum (Fin 71)) (JNum (Fin 70))"
    using thr
      C1_isSignificant [where thr = initialThresholds and f = "''heartrate''" and t = 1
        and rnd = Fin and x = "70.5" and y = 70]
      C1_isSignificant [where thr = initialThresholds and f = "''heartrate''" and t = 1
        and rnd = Fin and x = 71 and y = 70]
    by (simp_all add: to_double_def num_ge_def num_le_def)
  moreover have
    "\<not> hasDataChanged Fin initialThresholds ''heartrate'' (JNum NaN) (JNum (Fin 70))"
    using thr
      C1_isSignificant [where thr = initialThresholds and f = "''heartrate''"
        and rnd = Fin and n = "Fin 1" and m = NaN and m' = "Fin 70"]
    by (simp add: num_ge_def num_le_def)
  moreover have
    "hasDataChanged (\<lambda>d. if d = 1 - 1 / 2 ^ 60 then Fin 1 else Fin d) initialThresholds
        ''heartrate'' (JNum (Fin 1)) (JNum (Fin (1 / 2 ^ 60)))"
    using thr
      C1_isSignificant [where thr = initialThresholds and f = "''heartrate''"
        and rnd = "\<lambda>d. if d = 1 - 1 / 2 ^ 60 then Fin 1 else Fin d"
        and n = "Fin 1" and m = "Fin 1" and m' = "Fin (1 / 2 ^ 60)"]
    by (simp add: to_double_def num_ge_def num_le_def)
  moreover have
    "hasDataChanged (\<lambda>d. if d = 1 - 1 / 2 ^ 60 then Fin 1 else Fin d) initialThresholds
        ''heartrate'' (JNum (Fin 3)) (JNum (Fin 2))"
  proof -
    have mono: "\<forall>d. 1 \<le> \<bar>d\<bar> \<longrightarrow>
        num_ge (num_abs (if d = 1 - 1 / 2 ^ 60 then Fin 1 else Fin d)) (Fin (1::real))"
      by (auto simp: num_ge_def num_le_def)
    show ?thesis
      using thr mono
        C1_isSignificant [where thr = initialThresholds and f = "''heartrate''"
          and rnd = "\<lambda>d. if d = 1 - 1 / 2 ^ 60 then Fin 1 else Fin d"
          and t = 1 and x = 3 and y = 2]
      by simp
  qed
  ultimately show ?thesis by blast
qed

section \<open>The command endpoints\<close>

subsection \<open>What one request does\<close>

lemma fold_res_json:
  "fold (\<lambda>l. res_json (f l) b) ls s = s\<lparr>sent := sent s @ map (\<lambda>l. (f l, b)) ls\<rparr>"
  by (induction ls arbitrary: s) (simp_all add: res_json_def)

lemma notifyCommandListeners_eq:
  "notifyCommandListeners c s =
     s\<lparr>sent := sent s @
         map (\<lambda>l. (l_res l, CommandBody (pc_commands c) (pc_id c) (pc_timestamp c) NoFlag))
           (commandListeners s),
       commandListeners := []\<rparr>"
  by (simp add: notifyCommandListeners_def fold_res_json)


lemma deviceCommand_post_frame:
  "next_res (deviceCommand_post res bz ld newId now s) = next_res s
   \<and> timers (deviceCommand_post res bz ld newId now s) = timers s"
  by (cases bz; cases ld)
    (simp_all add: deviceCommand_post_def notifyCommandListeners_eq res_json_def
      applyBuzzer_def applyLed_def Let_def)

lemma deviceCommand_post_cases:
  "(pendingCommands (deviceCommand_post res bz ld newId now s) = pendingCommands s
     \<and> commandListeners (deviceCommand_post res bz ld newId now s) = commandListeners s
     \<and> (\<exists>b. sent (deviceCommand_post res bz ld newId now s) = sent s @ [(res, b)]
            \<and> dequeued_id (res, b) = []))
   \<or> (\<exists>cu. pendingCommands (deviceCommand_post res bz ld newId now s) =
            pendingCommands s @ [\<lparr>pc_id = newId, pc_commands = cu, pc_timestamp = now\<rparr>]
        \<and> commandListeners (deviceCommand_post res bz ld newId now s) = []
        \<and> sent (deviceCommand_post res bz ld newId now s) =
            sent s @ map (\<lambda>l. (l_res l, CommandBody cu newId now NoFlag)) (commandListeners s)
              @ [(res, UpdatedBody (deviceCommands (deviceCommand_post res bz ld newId now s)) True now)])"
  by (cases bz; cases ld)
    (simp_all add: deviceCommand_post_def notifyCommandListeners_eq res_json_def
      applyBuzzer_def applyLed_def Let_def)


lemma dequeued_append: "dequeued (xs @ ys) = dequeued xs @ dequeued ys"
  by (simp add: dequeued_def)

lemma dequeued_notify:
  "dequeued (map (\<lambda>l. (f l, CommandBody cu cid ts NoFlag)) ls) = []"
  by (induction ls) (simp_all add: dequeued_def)

lemma dequeued_single: "dequeued [e] = dequeued_id e"
  by (simp add: dequeued_def)

lemma getDeviceCommand_parks:
  "pendingCommands s = [] \<Longrightarrow> sets_timer (LongPoll tq False now) \<Longrightarrow>
   getDeviceCommand res tq False now s =
     s\<lparr>commandListeners := commandListeners s @ [\<lparr>l_res = res, l_timestamp = now\<rparr>],
       timers := timers s @ [(res, min (the (timeoutOf tq)) 2147483647)]\<rparr>"
  by (cases tq)
    (simp_all add: getDeviceCommand_def timeoutOf_def res_setTimeout_def Let_def)

lemma getDeviceCommand_empty_queue:
  "pendingCommands s = [] \<Longrightarrow>
   pendingCommands (getDeviceCommand res tq imm now s) = []
   \<and> (sent (getDeviceCommand res tq imm now s) = sent s
        \<or> (\<exists>b. sent (getDeviceCommand res tq imm now s) = sent s @ [(res, b)]
              \<and> dequeued_id (res, b) = []))"
  by (cases tq; cases imm)
    (auto simp: getDeviceCommand_def timeoutOf_def res_setTimeout_def res_json_def
      headersSent_def Let_def)

lemma handles_inv_answer:
  "handles_inv snt ls ts n \<Longrightarrow> handles_inv (snt @ [(n, b)]) ls ts (Suc n)"
  by (fastforce simp: handles_inv_def list_all_iff)

lemma handles_inv_broadcast:
  "handles_inv snt ls ts n \<Longrightarrow>
   handles_inv (snt @ map (\<lambda>l. (l_res l, b)) ls @ [(n, b')]) [] ts (Suc n)"
  by (fastforce simp: handles_inv_def list_all_iff comp_def)

lemma handles_inv_park:
  "handles_inv snt ls ts n \<Longrightarrow>
   handles_inv snt (ls @ [\<lparr>l_res = n, l_timestamp = now\<rparr>]) (ts @ [(n, t)]) (Suc n)"
  by (fastforce simp: handles_inv_def list_all_iff)

lemma handles_inv_clear:
  "handles_inv snt ls ts n \<Longrightarrow> handles_inv (snt @ [(n, b)]) [] ts (Suc n)"
  by (fastforce simp: handles_inv_def list_all_iff)

lemma handles_inv_filter:
  "handles_inv snt ls ts n \<Longrightarrow> handles_inv snt (filter P ls) ts n"
  by (fastforce simp: handles_inv_def list_all_iff distinct_map_filter)

lemma handles_inv_timeout:
  "handles_inv snt ls ts n \<Longrightarrow> r \<in> set (map fst ts) \<Longrightarrow> r \<notin> set (map fst snt) \<Longrightarrow>
   handles_inv (snt @ [(r, b)]) (filter (\<lambda>l. l_res l \<noteq> r) ls) ts n"
  by (fastforce simp: handles_inv_def list_all_iff distinct_map_filter)

lemma handles_ok_SetCommand:
  assumes "handles_ok s"
  shows "handles_ok (step (SetCommand bz ld newId now) s)"
proof -
  let ?s0 = "fresh_res s"
  let ?s' = "deviceCommand_post (next_res s) bz ld newId now ?s0"
  have fr: "next_res ?s' = Suc (next_res s)" "timers ?s' = timers s"
    using deviceCommand_post_frame [of "next_res s" bz ld newId now ?s0]
    by (simp_all add: fresh_res_def)
  have inv: "handles_inv (sent s) (commandListeners s) (timers s) (next_res s)"
    using assms by (simp add: handles_ok_def)
  from deviceCommand_post_cases [of "next_res s" bz ld newId now ?s0]
  have "handles_inv (sent ?s') (commandListeners ?s') (timers s) (Suc (next_res s))"
  proof
    assume "pendingCommands ?s' = pendingCommands ?s0
      \<and> commandListeners ?s' = commandListeners ?s0
      \<and> (\<exists>b. sent ?s' = sent ?s0 @ [(next_res s, b)] \<and> dequeued_id (next_res s, b) = [])"
    then obtain b where "commandListeners ?s' = commandListeners s"
      "sent ?s' = sent s @ [(next_res s, b)]"
      by (auto simp: fresh_res_def)
    then show ?thesis
      using handles_inv_answer [OF inv] by simp
  next
    assume "\<exists>cu. pendingCommands ?s' =
            pendingCommands ?s0 @ [\<lparr>pc_id = newId, pc_commands = cu, pc_timestamp = now\<rparr>]
        \<and> commandListeners ?s' = []
        \<and> sent ?s' =
            sent ?s0 @ map (\<lambda>l. (l_res l, CommandBody cu newId now NoFlag)) (commandListeners ?s0)
              @ [(next_res s, UpdatedBody (deviceCommands ?s') True now)]"
    then obtain cu where "commandListeners ?s' = []"
      "sent ?s' = sent s @ map (\<lambda>l. (l_res l, CommandBody cu newId now NoFlag)) (commandListeners s)
              @ [(next_res s, UpdatedBody (deviceCommands ?s') True now)]"
      by (auto simp: fresh_res_def)
    then show ?thesis
      using handles_inv_broadcast [OF inv] by simp
  qed
  then show ?thesis
    using fr by (simp add: handles_ok_def)
qed

lemma handles_ok_LongPoll:
  assumes "handles_ok s" and "sets_timer (LongPoll tq imm now)"
  shows "handles_ok (step (LongPoll tq imm now) s)"
proof (cases "pendingCommands s")
  case (Cons c queue)
  then show ?thesis
    using assms(1)
    by (simp add: handles_ok_def fresh_res_def getDeviceCommand_def res_json_def
        handles_inv_answer)
next
  case Nil
  show ?thesis
  proof (cases imm)
    case True
    then show ?thesis
      using assms(1) Nil
      by (simp add: handles_ok_def fresh_res_def getDeviceCommand_def res_json_def
          handles_inv_answer)
  next
    case False
    have "pendingCommands (fresh_res s) = []"
      using Nil by (simp add: fresh_res_def)
    from getDeviceCommand_parks [OF this, of tq now "next_res s"] assms(2) False
    have "getDeviceCommand (next_res s) tq False now (fresh_res s) =
         (fresh_res s)\<lparr>commandListeners :=
             commandListeners (fresh_res s) @ [\<lparr>l_res = next_res s, l_timestamp = now\<rparr>],
           timers := timers (fresh_res s) @
             [(next_res s, min (the (timeoutOf tq)) 2147483647)]\<rparr>"
      by simp
    then show ?thesis
      using assms(1) False
      by (simp add: handles_ok_def fresh_res_def handles_inv_park)
  qed
qed

lemma handles_ok_step: "handles_ok s \<Longrightarrow> sets_timer e \<Longrightarrow> handles_ok (step e s)"
proof (cases e)
  case (SetCommand bz ld newId now)
  assume "handles_ok s"
  then show ?thesis
    unfolding SetCommand by (rule handles_ok_SetCommand)
next
  case (LongPoll tq imm now)
  assume "handles_ok s" "sets_timer e"
  then show ?thesis
    unfolding LongPoll by (rule handles_ok_LongPoll)
next
  case (Poll now)
  assume "handles_ok s"
  then show ?thesis
    unfolding Poll
    by (cases "pendingCommands s")
      (simp_all add: handles_ok_def fresh_res_def pollDeviceCommand_def res_json_def
        handles_inv_answer)
next
  case (ClearPending now)
  assume "handles_ok s"
  then show ?thesis
    unfolding ClearPending
    by (simp add: handles_ok_def fresh_res_def clearPendingCommands_def
        res_json_def handles_inv_clear)
next
  case (TimerFires res now)
  assume "handles_ok s"
  then show ?thesis
    unfolding TimerFires
    by (simp add: handles_ok_def onTimeout_def res_json_def headersSent_def Let_def
        handles_inv_filter handles_inv_timeout)
qed

lemma handles_ok_run: "handles_ok s \<Longrightarrow> list_all sets_timer evs \<Longrightarrow> handles_ok (run evs s)"
  by (induction evs arbitrary: s) (simp_all add: handles_ok_step)

lemma handles_ok_initial: "handles_ok initialCommandState"
  by (simp add: handles_ok_def handles_inv_def initialCommandState_def)


lemma queue_inv_answer:
  "queue_inv ids queue snt \<Longrightarrow> dequeued_id (r, b) = [] \<Longrightarrow>
   queue_inv (ids @ new) queue (snt @ [(r, b)])"
  by (auto simp: queue_inv_def list_all_iff dequeued_append dequeued_single)

lemma queue_inv_answer0:
  "queue_inv ids queue snt \<Longrightarrow> dequeued_id (r, b) = [] \<Longrightarrow> queue_inv ids queue (snt @ [(r, b)])"
  using queue_inv_answer [of ids queue snt r b "[]"] by simp

lemma queue_inv_enqueue:
  "queue_inv ids queue snt \<Longrightarrow> newId \<notin> set ids \<Longrightarrow>
   queue_inv (ids @ [newId])
     (queue @ [\<lparr>pc_id = newId, pc_commands = cu, pc_timestamp = now\<rparr>])
     (snt @ map (\<lambda>l. (l_res l, CommandBody cu newId now NoFlag)) ls @ [(r, UpdatedBody dc u now)])"
  by (auto simp: queue_inv_def list_all_iff dequeued_append dequeued_single dequeued_notify)

lemma queue_inv_dequeue:
  "queue_inv ids (c # queue) snt \<Longrightarrow>
   dequeued_id (r, CommandBody (pc_commands c) (pc_id c) (pc_timestamp c) fl) = [pc_id c] \<Longrightarrow>
   queue_inv ids queue (snt @ [(r, CommandBody (pc_commands c) (pc_id c) (pc_timestamp c) fl)])"
  by (auto simp: queue_inv_def list_all_iff dequeued_append dequeued_single)

lemma queue_inv_clear:
  "queue_inv ids queue snt \<Longrightarrow> dequeued_id (r, b) = [] \<Longrightarrow> queue_inv ids [] (snt @ [(r, b)])"
  by (auto simp: queue_inv_def list_all_iff dequeued_append dequeued_single)

lemma queue_ok_SetCommand:
  assumes "queue_ok ids s" and "newId \<notin> set ids"
  shows "queue_ok (ids @ [newId]) (step (SetCommand bz ld newId now) s)"
proof -
  let ?s0 = "fresh_res s"
  let ?s' = "deviceCommand_post (next_res s) bz ld newId now ?s0"
  have inv: "queue_inv ids (pendingCommands s) (sent s)"
    using assms(1) by (simp add: queue_ok_def)
  from deviceCommand_post_cases [of "next_res s" bz ld newId now ?s0]
  have "queue_inv (ids @ [newId]) (pendingCommands ?s') (sent ?s')"
  proof
    assume "pendingCommands ?s' = pendingCommands ?s0
      \<and> commandListeners ?s' = commandListeners ?s0
      \<and> (\<exists>b. sent ?s' = sent ?s0 @ [(next_res s, b)] \<and> dequeued_id (next_res s, b) = [])"
    then obtain b where "pendingCommands ?s' = pendingCommands s"
      "sent ?s' = sent s @ [(next_res s, b)]" "dequeued_id (next_res s, b) = []"
      by (auto simp: fresh_res_def)
    then show ?thesis
      using queue_inv_answer [OF inv, of "next_res s" b "[newId]"] by simp
  next
    assume "\<exists>cu. pendingCommands ?s' =
            pendingCommands ?s0 @ [\<lparr>pc_id = newId, pc_commands = cu, pc_timestamp = now\<rparr>]
        \<and> commandListeners ?s' = []
        \<and> sent ?s' =
            sent ?s0 @ map (\<lambda>l. (l_res l, CommandBody cu newId now NoFlag)) (commandListeners ?s0)
              @ [(next_res s, UpdatedBody (deviceCommands ?s') True now)]"
    then obtain cu where
      "pendingCommands ?s' =
         pendingCommands s @ [\<lparr>pc_id = newId, pc_commands = cu, pc_timestamp = now\<rparr>]"
      "sent ?s' = sent s @ map (\<lambda>l. (l_res l, CommandBody cu newId now NoFlag)) (commandListeners s)
              @ [(next_res s, UpdatedBody (deviceCommands ?s') True now)]"
      by (auto simp: fresh_res_def)
    then show ?thesis
      using queue_inv_enqueue [OF inv assms(2)] by simp
  qed
  then show ?thesis
    by (simp add: queue_ok_def)
qed

lemma queue_ok_step:
  assumes "queue_ok ids s" and "distinct (ids @ issued_id e)"
  shows "queue_ok (ids @ issued_id e) (step e s)"
proof (cases e)
  case (SetCommand bz ld newId now)
  then show ?thesis
    using assms queue_ok_SetCommand [of ids s newId bz ld now] by simp
next
  case (LongPoll tq imm now)
  show ?thesis
  proof (cases "pendingCommands s")
    case (Cons c queue)
    then show ?thesis
      using assms(1) LongPoll
      by (simp add: queue_ok_def fresh_res_def getDeviceCommand_def res_json_def
          queue_inv_dequeue)
  next
    case Nil
    then have "pendingCommands (fresh_res s) = []"
      by (simp add: fresh_res_def)
    from getDeviceCommand_empty_queue [OF this, of "next_res s" tq imm now]
    show ?thesis
      using assms(1) LongPoll Nil queue_inv_answer0 [of ids "[]" "sent s" "next_res s"]
      by (auto simp: queue_ok_def fresh_res_def)
  qed
next
  case (Poll now)
  then show ?thesis
    using assms(1)
    by (cases "pendingCommands s")
      (simp_all add: queue_ok_def fresh_res_def pollDeviceCommand_def res_json_def
        queue_inv_dequeue queue_inv_answer0)
next
  case (ClearPending now)
  then show ?thesis
    using assms(1)
    by (simp add: queue_ok_def fresh_res_def clearPendingCommands_def res_json_def
        queue_inv_clear)
next
  case (TimerFires res now)
  then show ?thesis
    using assms(1)
    by (simp add: queue_ok_def onTimeout_def res_json_def Let_def queue_inv_answer0)
qed

lemma queue_ok_run:
  "queue_ok ids s \<Longrightarrow> distinct (ids @ issued evs) \<Longrightarrow> queue_ok (ids @ issued evs) (run evs s)"
proof (induction evs arbitrary: ids s)
  case Nil
  then show ?case by (simp add: issued_def)
next
  case (Cons e evs)
  have split: "issued (e # evs) = issued_id e @ issued evs"
    by (simp add: issued_def)
  have "queue_ok (ids @ issued_id e) (step e s)"
    using Cons.prems by (intro queue_ok_step) (auto simp: split)
  moreover have "distinct ((ids @ issued_id e) @ issued evs)"
    using Cons.prems(2) by (simp add: split)
  ultimately have "queue_ok ((ids @ issued_id e) @ issued evs) (run evs (step e s))"
    by (rule Cons.IH)
  then show ?case by (simp add: split)
qed

lemma queue_ok_initial: "queue_ok [] initialCommandState"
  by (simp add: queue_ok_def queue_inv_def initialCommandState_def dequeued_def)

subsection \<open>Long poll on arrival (C4)\<close>

lemma getDeviceCommand_nonempty:
  "pendingCommands s = c # queue \<Longrightarrow>
   getDeviceCommand res tq imm now s =
     s\<lparr>pendingCommands := queue,
       sent := sent s @
         [(res, CommandBody (pc_commands c) (pc_id c) (pc_timestamp c) ImmediateFlag)]\<rparr>"
  by (simp add: getDeviceCommand_def res_json_def)

lemma getDeviceCommand_immediate_empty:
  "pendingCommands s = [] \<Longrightarrow>
   getDeviceCommand res tq True now s =
     s\<lparr>sent := sent s @ [(res, SnapshotBody (deviceCommands s) now ImmediateFlag)]\<rparr>"
  by (simp add: getDeviceCommand_def res_json_def)

text \<open>
  C4. A long-poll request that finds the queue non-empty is answered within the handler
  with the head of the queue (the oldest command, since \<open>setCommand\<close> appends at the
  end), and the queue loses that head; one that finds the queue empty with the
  immediate flag set is answered within the handler with the current commands, and
  nothing else in the state changes.
\<close>

theorem C4_long_poll_on_arrival:
  "(pendingCommands s = c # queue \<longrightarrow>
      getDeviceCommand res tq imm now s =
        s\<lparr>pendingCommands := queue,
          sent := sent s @
            [(res, CommandBody (pc_commands c) (pc_id c) (pc_timestamp c) ImmediateFlag)]\<rparr>)
   \<and> (pendingCommands s = [] \<longrightarrow>
      getDeviceCommand res tq True now s =
        s\<lparr>sent := sent s @ [(res, SnapshotBody (deviceCommands s) now ImmediateFlag)]\<rparr>)"
  using getDeviceCommand_nonempty [of s c queue res tq imm now]
    getDeviceCommand_immediate_empty [of s res tq now]
  by blast

theorem C4_long_poll_on_arrival_witness:
  "getDeviceCommand 7 NoTimeout False 30
     (initialCommandState\<lparr>pendingCommands :=
        [\<lparr>pc_id = ''a'', pc_commands = \<lparr>cu_buzzer = Some True, cu_led = None\<rparr>,
           pc_timestamp = 10\<rparr>,
         \<lparr>pc_id = ''b'', pc_commands = \<lparr>cu_buzzer = None, cu_led = Some True\<rparr>,
           pc_timestamp = 20\<rparr>]\<rparr>) =
   initialCommandState\<lparr>pendingCommands :=
        [\<lparr>pc_id = ''b'', pc_commands = \<lparr>cu_buzzer = None, cu_led = Some True\<rparr>,
           pc_timestamp = 20\<rparr>],
      sent := [(7, CommandBody \<lparr>cu_buzzer = Some True, cu_led = None\<rparr> ''a'' 10
                  ImmediateFlag)]\<rparr>
   \<and> getDeviceCommand 7 NoTimeout True 30 initialCommandState =
       initialCommandState\<lparr>sent :=
         [(7, SnapshotBody \<lparr>buzzer = False, led = False\<rparr> 30 ImmediateFlag)]\<rparr>"
  using C4_long_poll_on_arrival
      [of "initialCommandState\<lparr>pendingCommands :=
        [\<lparr>pc_id = ''a'', pc_commands = \<lparr>cu_buzzer = Some True, cu_led = None\<rparr>,
           pc_timestamp = 10\<rparr>,
         \<lparr>pc_id = ''b'', pc_commands = \<lparr>cu_buzzer = None, cu_led = Some True\<rparr>,
           pc_timestamp = 20\<rparr>]\<rparr>"
        "\<lparr>pc_id = ''a'', pc_commands = \<lparr>cu_buzzer = Some True, cu_led = None\<rparr>,
           pc_timestamp = 10\<rparr>"
        "[\<lparr>pc_id = ''b'', pc_commands = \<lparr>cu_buzzer = None, cu_led = Some True\<rparr>,
           pc_timestamp = 20\<rparr>]" 7 NoTimeout False 30]
    C4_long_poll_on_arrival [of initialCommandState _ _ 7 NoTimeout _ 30]
  by (simp add: initialCommandState_def)

subsection \<open>Requests that change nothing (C7)\<close>

lemma deviceCommand_post_empty:
  "deviceCommand_post res JUndefined JUndefined newId now s =
     s\<lparr>sent := sent s @
       [(res, ErrorBody 400 ''At least one command (buzzer or led) must be provided'' now)]\<rparr>"
  by (simp add: deviceCommand_post_def res_json_def)

lemma deviceCommand_post_same:
  assumes "bz \<noteq> JUndefined \<or> ld \<noteq> JUndefined"
    and "bz = JUndefined \<or> bz = JBool (buzzer (deviceCommands s))"
    and "ld = JUndefined \<or> ld = JBool (led (deviceCommands s))"
  shows "deviceCommand_post res bz ld newId now s =
     s\<lparr>sent := sent s @ [(res, UpdatedBody (deviceCommands s) False now)]\<rparr>"
  using assms
  by (auto simp: deviceCommand_post_def res_json_def applyBuzzer_def applyLed_def)

text \<open>
  C7. With neither field provided the request is refused (status 400, the message of the
  empty request) and the state is otherwise untouched. With at least one field provided
  and every provided field equal to the stored value, the answer reports
  \<open>updated = false\<close> with the stored commands, and the state is otherwise untouched:
  the queue, the registry and the stored commands are the same, and the only response
  written is the one to the caller, so no listener is notified.
\<close>

theorem C7_empty_and_noop:
  "deviceCommand_post res JUndefined JUndefined newId now s =
     s\<lparr>sent := sent s @
       [(res, ErrorBody 400 ''At least one command (buzzer or led) must be provided'' now)]\<rparr>
   \<and> ((bz \<noteq> JUndefined \<or> ld \<noteq> JUndefined)
        \<and> (bz = JUndefined \<or> bz = JBool (buzzer (deviceCommands s)))
        \<and> (ld = JUndefined \<or> ld = JBool (led (deviceCommands s)))
      \<longrightarrow> deviceCommand_post res bz ld newId now s =
            s\<lparr>sent := sent s @ [(res, UpdatedBody (deviceCommands s) False now)]\<rparr>)"
  using deviceCommand_post_empty [of res newId now s]
    deviceCommand_post_same [of bz ld s res newId now]
  by blast

theorem C7_empty_and_noop_witness:
  "deviceCommand_post 3 (JBool True) JUndefined ''x'' 40
     (initialCommandState\<lparr>deviceCommands := \<lparr>buzzer = True, led = False\<rparr>,
        commandListeners := [\<lparr>l_res = 1, l_timestamp = 5\<rparr>]\<rparr>) =
   initialCommandState\<lparr>deviceCommands := \<lparr>buzzer = True, led = False\<rparr>,
        commandListeners := [\<lparr>l_res = 1, l_timestamp = 5\<rparr>],
        sent := [(3, UpdatedBody \<lparr>buzzer = True, led = False\<rparr> False 40)]\<rparr>"
  using C7_empty_and_noop [of 3 "''x''" 40
      "initialCommandState\<lparr>deviceCommands := \<lparr>buzzer = True, led = False\<rparr>,
        commandListeners := [\<lparr>l_res = 1, l_timestamp = 5\<rparr>]\<rparr>" "JBool True" JUndefined]
  by (simp add: initialCommandState_def)

subsection \<open>A refused field after an applied one (C6, C3)\<close>

lemma deviceCommand_post_bad_buzzer:
  "bz \<noteq> JUndefined \<Longrightarrow> \<forall>b. bz \<noteq> JBool b \<Longrightarrow>
   deviceCommand_post res bz ld newId now s =
     s\<lparr>sent := sent s @ [(res, ErrorBody 400 ''Buzzer value must be boolean'' now)]\<rparr>"
  by (cases bz) (auto simp: deviceCommand_post_def res_json_def applyBuzzer_def)

lemma deviceCommand_post_bad_led:
  "ld \<noteq> JUndefined \<Longrightarrow> \<forall>l. ld \<noteq> JBool l \<Longrightarrow>
   deviceCommand_post res (JBool b) ld newId now s =
     s\<lparr>deviceCommands := (deviceCommands s)\<lparr>buzzer := b\<rparr>,
       sent := sent s @ [(res, ErrorBody 400 ''LED value must be boolean'' now)]\<rparr>"
  by (cases ld)
    (auto simp: deviceCommand_post_def res_json_def applyBuzzer_def applyLed_def)

text \<open>An accepted request that changes a field: the whole effect.\<close>

lemma deviceCommand_post_accepted:
  assumes "bz = JUndefined \<or> bz = JBool b"
    and "ld = JUndefined \<or> ld = JBool l"
    and "(bz = JBool b \<and> b \<noteq> buzzer (deviceCommands s))
         \<or> (ld = JBool l \<and> l \<noteq> led (deviceCommands s))"
    and "cu = \<lparr>cu_buzzer = (if bz = JBool b \<and> b \<noteq> buzzer (deviceCommands s)
                              then Some b else None),
              cu_led = (if ld = JBool l \<and> l \<noteq> led (deviceCommands s)
                           then Some l else None)\<rparr>"
    and "dc = \<lparr>buzzer = (if bz = JBool b then b else buzzer (deviceCommands s)),
              led = (if ld = JBool l then l else led (deviceCommands s))\<rparr>"
  shows "deviceCommand_post res bz ld newId now s =
     s\<lparr>deviceCommands := dc,
       pendingCommands := pendingCommands s @
         [\<lparr>pc_id = newId, pc_commands = cu, pc_timestamp = now\<rparr>],
       commandListeners := [],
       sent := sent s @
         map (\<lambda>l. (l_res l, CommandBody cu newId now NoFlag)) (commandListeners s) @
         [(res, UpdatedBody dc True now)]\<rparr>"
  using assms
  by (auto simp: deviceCommand_post_def notifyCommandListeners_eq res_json_def
      applyBuzzer_def applyLed_def)

text \<open>Validation of a reading comes before any update: a refused reading changes nothing.\<close>

lemma postData_refused:
  "validateSensorData d \<noteq> [] \<Longrightarrow>
   postData rnd clk now (Some d) s =
     (s, DataBadRequest ''Validation failed'' (validateSensorData d) now)"
  by (simp add: postData_def)

text \<open>
  C6. The specification states that a request with a refused field fails and applies
  none of its fields. The code for a reading does so, and so does \<open>POST /api/deviceCommand\<close> for a bad
  buzzer; with a changing buzzer and an LED that is no boolean, the buzzer is stored
  before the LED is checked. Evaluated from the initial state (buzzer off): the answer
  is the 400 of the LED, the stored buzzer is on, nothing is queued.
\<close>

theorem C6_buzzer_applied_before_led_check:
  "deviceCommand_post 0 (JBool True) (JStr ''on'') ''cmd1'' 20 initialCommandState =
     initialCommandState\<lparr>deviceCommands := \<lparr>buzzer = True, led = False\<rparr>,
        sent := [(0, ErrorBody 400 ''LED value must be boolean'' 20)]\<rparr>"
  by (simp add: deviceCommand_post_def res_json_def applyBuzzer_def applyLed_def
      initialCommandState_def)

text \<open>
  C3. The specification states that whenever \<open>setCommand\<close> changes a field, a command
  with the changed fields is queued and every waiter receives it, and the registry is
  empty afterwards.
  For an accepted request this is \<open>deviceCommand_post_accepted\<close>. The request of C6
  changes the stored buzzer and is refused afterwards: with one waiter parked, the
  buzzer is on, the queue is empty, the waiter is still registered and has received
  nothing.
\<close>

theorem C3_change_without_command:
  "run [LongPoll NoTimeout False 10, SetCommand (JBool True) (JStr ''on'') ''cmd1'' 20]
      initialCommandState =
     \<lparr>deviceCommands = \<lparr>buzzer = True, led = False\<rparr>, pendingCommands = [],
      commandListeners = [\<lparr>l_res = 0, l_timestamp = 10\<rparr>],
      sent = [(1, ErrorBody 400 ''LED value must be boolean'' 20)],
      timers = [(0, 30000)], next_res = 2\<rparr>"
  by (simp add: deviceCommand_post_def res_json_def applyBuzzer_def applyLed_def
      initialCommandState_def getDeviceCommand_def fresh_res_def timeoutOf_def
      res_setTimeout_def headersSent_def Let_def)

subsection \<open>At most one dequeue for a command (C2)\<close>

text \<open>
  C2. The specification states that a command handed to a waiting listener is never
  handed to a poll afterwards. \<open>notifyCommandListeners\<close> leaves the command in the
  queue, so this does not hold.
  One waiter, one \<open>setCommand\<close>, one poll: the waiter (handle 0) and the poll
  (handle 2) receive the same command.
\<close>

theorem C2_delivered_to_listener_and_poll:
  "sent (run [LongPoll NoTimeout False 10, SetCommand (JBool True) JUndefined ''cmd1'' 20, Poll 30]
      initialCommandState) =
     [(0, CommandBody \<lparr>cu_buzzer = Some True, cu_led = None\<rparr> ''cmd1'' 20 NoFlag),
      (1, UpdatedBody \<lparr>buzzer = True, led = False\<rparr> True 20),
      (2, CommandBody \<lparr>cu_buzzer = Some True, cu_led = None\<rparr> ''cmd1'' 20
            (NewCommandsFlag True))]"
  by (simp add: deviceCommand_post_def res_json_def applyBuzzer_def applyLed_def
      initialCommandState_def getDeviceCommand_def fresh_res_def timeoutOf_def
      res_setTimeout_def headersSent_def Let_def pollDeviceCommand_def
      notifyCommandListeners_def)

text \<open>
  C2, amended. In every run whose generated command ids are all different, the ids still
  in the queue and the ids handed out by dequeuing consumers (plain polls, and long polls
  that find the queue non-empty) are all different: a command is dequeued at most once,
  and once dequeued it is no longer in the queue.
\<close>

theorem C2_dequeued_at_most_once:
  assumes "distinct (issued evs)"
  shows "distinct (map pc_id (pendingCommands (run evs initialCommandState))
           @ dequeued (sent (run evs initialCommandState)))"
  using queue_ok_run [OF queue_ok_initial, of evs] assms
  by (simp add: queue_ok_def queue_inv_def)

theorem C2_dequeued_at_most_once_witness:
  "distinct (issued [SetCommand (JBool True) JUndefined ''cmd1'' 20,
               SetCommand JUndefined (JBool True) ''cmd2'' 25, Poll 30])
   \<and> distinct (map pc_id (pendingCommands
         (run [SetCommand (JBool True) JUndefined ''cmd1'' 20,
               SetCommand JUndefined (JBool True) ''cmd2'' 25, Poll 30] initialCommandState))
       @ dequeued (sent
         (run [SetCommand (JBool True) JUndefined ''cmd1'' 20,
               SetCommand JUndefined (JBool True) ''cmd2'' 25, Poll 30] initialCommandState)))
   \<and> dequeued (sent
         (run [SetCommand (JBool True) JUndefined ''cmd1'' 20,
               SetCommand JUndefined (JBool True) ''cmd2'' 25, Poll 30] initialCommandState))
       = [''cmd1'']"
proof -
  have d: "distinct (issued [SetCommand (JBool True) JUndefined ''cmd1'' 20,
               SetCommand JUndefined (JBool True) ''cmd2'' 25, Poll 30])"
    by (simp add: issued_def)
  have e: "dequeued (sent
         (run [SetCommand (JBool True) JUndefined ''cmd1'' 20,
               SetCommand JUndefined (JBool True) ''cmd2'' 25, Poll 30] initialCommandState))
       = [''cmd1'']"
    by (simp add: deviceCommand_post_def res_json_def applyBuzzer_def applyLed_def
      initialCommandState_def fresh_res_def pollDeviceCommand_def
      notifyCommandListeners_def dequeued_def)
  show ?thesis
    using d e C2_dequeued_at_most_once [OF d] by blast
qed

subsection \<open>Timeouts, and one answer for a handle (C5)\<close>

lemma onTimeout_unanswered:
  "\<not> headersSent res s \<Longrightarrow>
   onTimeout res now s =
     s\<lparr>commandListeners := filter (\<lambda>l. l_res l \<noteq> res) (commandListeners s),
       sent := sent s @ [(res, SnapshotBody (deviceCommands s) now TimeoutFlag)]\<rparr>"
  by (simp add: onTimeout_def headersSent_def res_json_def)

lemma listeners_unanswered:
  "handles_ok s \<Longrightarrow>
   list_all (\<lambda>l. l_res l \<in> set (map fst (timers s)) \<and> \<not> headersSent (l_res l) s)
     (commandListeners s)"
  by (fastforce simp: handles_ok_def handles_inv_def list_all_iff headersSent_def)

lemma answered_once: "handles_ok s \<Longrightarrow> distinct (map fst (sent s))"
  by (simp add: handles_ok_def handles_inv_def)

text \<open>
  Where every long poll sets a timer (no \<open>timeout\<close> in the query, or a positive one):
  when the timer of an unanswered parked request fires, its listener is removed and it
  is answered with the current commands and the timeout flag; every registered listener
  is such a request; and \<open>res.json\<close> is called at most once on a handle.
\<close>

lemma timeout_of_timed_runs:
  assumes "list_all sets_timer evs"
  shows "(r \<in> set (map fst (timers s)) \<and> \<not> headersSent r s \<longrightarrow>
      step (TimerFires r now) s =
        s\<lparr>commandListeners := filter (\<lambda>l. l_res l \<noteq> r) (commandListeners s),
          sent := sent s @ [(r, SnapshotBody (deviceCommands s) now TimeoutFlag)]\<rparr>)
   \<and> list_all (\<lambda>l. l_res l \<in> set (map fst (timers (run evs initialCommandState)))
                  \<and> \<not> headersSent (l_res l) (run evs initialCommandState))
        (commandListeners (run evs initialCommandState))
   \<and> distinct (map fst (sent (run evs initialCommandState)))"
  using onTimeout_unanswered [of r s now]
    listeners_unanswered [OF handles_ok_run [OF handles_ok_initial assms]]
    answered_once [OF handles_ok_run [OF handles_ok_initial assms]]
  by simp

text \<open>
  C5. The specification states that a waiter not resolved by a \<open>setCommand\<close> before
  its deadline is removed from the registry and answered with the current commands and
  the timeout marker, and that no waiter is resolved more than once. The handler pushes
  the listener and only then sets the timer, with whatever \<open>parseInt\<close> made of the
  query. For \<open>timeout=-5\<close> (and for a timeout that is no number) setting the timer
  throws: the request is answered 500, its listener stays registered and no timer will
  remove it; the next changing \<open>setCommand\<close> calls \<open>res.json\<close> on the answered
  handle once more. For \<open>timeout=0\<close> no timer is set: the waiter stays registered
  and is never answered by a timeout.
\<close>

theorem C5_waiter_without_timer:
  "run [LongPoll (TimeoutMs (- 5)) False 10, TimerFires 0 40000] initialCommandState =
     \<lparr>deviceCommands = \<lparr>buzzer = False, led = False\<rparr>, pendingCommands = [],
      commandListeners = [\<lparr>l_res = 0, l_timestamp = 10\<rparr>],
      sent = [(0, ErrorBody 500 ''Internal server error'' 10)],
      timers = [], next_res = 1\<rparr>
   \<and> sent (run [LongPoll (TimeoutMs (- 5)) False 10,
                 SetCommand (JBool True) JUndefined ''cmd1'' 20] initialCommandState) =
       [(0, ErrorBody 500 ''Internal server error'' 10),
        (0, CommandBody \<lparr>cu_buzzer = Some True, cu_led = None\<rparr> ''cmd1'' 20 NoFlag),
        (1, UpdatedBody \<lparr>buzzer = True, led = False\<rparr> True 20)]
   \<and> run [LongPoll (TimeoutMs 0) False 10, TimerFires 0 40000] initialCommandState =
     \<lparr>deviceCommands = \<lparr>buzzer = False, led = False\<rparr>, pendingCommands = [],
      commandListeners = [\<lparr>l_res = 0, l_timestamp = 10\<rparr>],
      sent = [], timers = [], next_res = 1\<rparr>"
  by (simp add: deviceCommand_post_def res_json_def applyBuzzer_def applyLed_def
      initialCommandState_def getDeviceCommand_def fresh_res_def timeoutOf_def
      res_setTimeout_def headersSent_def notifyCommandListeners_def Let_def)

section \<open>The sensor endpoints\<close>

subsection \<open>Readings since an instant (C8)\<close>

lemma changedSince_iff:
  "(k, r) \<in> set (changedSince ld t) \<longleftrightarrow>
   k \<in> set sensorFields \<and> ld k = Some r \<and> t < r_timestamp r"
  by (auto simp: changedSince_def split: option.splits if_splits)

lemma changedSince_distinct: "distinct (map fst (changedSince ld t))"
  by (simp add: changedSince_def sensorFields_def split: option.splits)

text \<open>
  C8. For a \<open>lastUpdate\<close> that is an instant \<open>t\<close>, the answer lists each field at most
  once, and a field with its reading is listed exactly when it is one of the sensor
  fields, has a stored reading, and the stored timestamp is greater than \<open>t\<close>: no field
  stamped at or before \<open>t\<close> is returned. \<open>fullUpdate\<close> is true exactly when the list
  is empty.
\<close>

theorem C8_readings_since:
  "\<exists>changed. getData_post now (Instant t) s = GetData changed (changed = []) now
     \<and> distinct (map fst changed)
     \<and> (\<forall>k r. (k, r) \<in> set changed \<longleftrightarrow>
          (k \<in> set sensorFields \<and> latestData s k = Some r \<and> t < r_timestamp r))"
  by (rule exI [of _ "changedSince (latestData s) t"])
    (simp add: getData_post_def Let_def changedSince_iff changedSince_distinct)

theorem C8_readings_since_witness:
  "getData_post 300 (Instant 100)
     \<lparr>latestData = [''temp'' \<mapsto> \<lparr>r_value = JNum (Fin 36.5), r_timestamp = 100\<rparr>,
                    ''heartrate'' \<mapsto> \<lparr>r_value = JNum (Fin 70), r_timestamp = 200\<rparr>],
      changeThresholds = initialThresholds\<rparr>
     = GetData [(''heartrate'', \<lparr>r_value = JNum (Fin 70), r_timestamp = 200\<rparr>)] False 300
   \<and> getData_post 300 (Instant 200)
     \<lparr>latestData = [''temp'' \<mapsto> \<lparr>r_value = JNum (Fin 36.5), r_timestamp = 100\<rparr>,
                    ''heartrate'' \<mapsto> \<lparr>r_value = JNum (Fin 70), r_timestamp = 200\<rparr>],
      changeThresholds = initialThresholds\<rparr>
     = GetData [] True 300"
  using C8_readings_since [of 300 100
     "\<lparr>latestData = [''temp'' \<mapsto> \<lparr>r_value = JNum (Fin 36.5), r_timestamp = 100\<rparr>,
                    ''heartrate'' \<mapsto> \<lparr>r_value = JNum (Fin 70), r_timestamp = 200\<rparr>],
      changeThresholds = initialThresholds\<rparr>"]
  by (simp add: getData_post_def changedSince_def sensorFields_def)

subsection \<open>Setting thresholds (C9)\<close>

lemma applyThreshold_applied:
  "key \<notin> set objectPrototypeKeys \<Longrightarrow> thr key \<noteq> None \<Longrightarrow> isValidNumber (JNum n) \<Longrightarrow>
   num_ge n (Fin 0) \<Longrightarrow>
   applyThreshold (key, JNum n) (thr, c) = (thr(key \<mapsto> n), Suc c)"
  by (auto simp: applyThreshold_def get_prop_def set_prop_def ge_zero_def objectPrototypeKeys_def)

lemma applyThreshold_skipped:
  "key \<notin> set objectPrototypeKeys \<Longrightarrow> thr key = None \<or> \<not> isValidNumber v \<or> \<not> ge_zero v \<Longrightarrow>
   applyThreshold (key, v) (thr, c) = (thr, c)"
  by (auto simp: applyThreshold_def get_prop_def)

text \<open>No threshold is negative, whatever the body.\<close>

lemma applyThreshold_nonneg:
  assumes "\<forall>k n. thr k = Some n \<longrightarrow> num_ge n (Fin 0)"
    and "applyThreshold kv (thr, c) = (thr', c')"
  shows "\<forall>k n. thr' k = Some n \<longrightarrow> num_ge n (Fin 0)"
  using assms
  by (cases kv)
    (auto simp: applyThreshold_def set_prop_def ge_zero_def
      split: if_splits jsval.splits)

lemma fold_applyThreshold_nonneg:
  "\<forall>k n. thr k = Some n \<longrightarrow> num_ge n (Fin 0) \<Longrightarrow>
   fold applyThreshold body (thr, c) = (thr', c') \<Longrightarrow>
   \<forall>k n. thr' k = Some n \<longrightarrow> num_ge n (Fin 0)"
proof (induction body arbitrary: thr c)
  case Nil
  then show ?case by simp
next
  case (Cons kv body)
  obtain thr1 c1 where step: "applyThreshold kv (thr, c) = (thr1, c1)"
    by (cases "applyThreshold kv (thr, c)")
  have "\<forall>k n. thr1 k = Some n \<longrightarrow> num_ge n (Fin 0)"
    using applyThreshold_nonneg [OF Cons.prems(1) step] .
  moreover have "fold applyThreshold body (thr1, c1) = (thr', c')"
    using Cons.prems(2) step by simp
  ultimately show ?case by (rule Cons.IH)
qed

text \<open>
  For a body none of whose keys is a name of \<open>Object.prototype\<close>: the own keys of
  \<open>changeThresholds\<close> stay the same, the count is the number of entries that name an
  own key and carry a finite number \<open>\<ge> 0\<close>, a key without such an entry keeps its
  threshold, and (distinct keys) a key with such an entry gets its number.
\<close>

lemma applyThreshold_cases:
  assumes "key \<notin> set objectPrototypeKeys"
  shows "applyThreshold (key, v) (thr, c) =
     (if key \<in> dom thr \<and> isValidNumber v \<and> ge_zero v
      then (case v of JNum n \<Rightarrow> (thr(key \<mapsto> n), Suc c) | _ \<Rightarrow> (thr, c))
      else (thr, c))"
  using assms
  by (auto simp: applyThreshold_def get_prop_def set_prop_def
      split: jsval.splits option.splits)

lemma fold_applyThreshold_count:
  "set (map fst body) \<inter> set objectPrototypeKeys = {} \<Longrightarrow>
   fold applyThreshold body (thr, c) = (thr', c') \<Longrightarrow>
   dom thr' = dom thr
   \<and> c' = c + length (filter (\<lambda>kv. fst kv \<in> dom thr \<and> isValidNumber (snd kv)
                                  \<and> ge_zero (snd kv)) body)"
proof (induction body arbitrary: thr c)
  case Nil
  then show ?case by simp
next
  case (Cons kv body)
  obtain key v where kv: "kv = (key, v)" by (cases kv)
  obtain thr1 c1 where step: "applyThreshold (key, v) (thr, c) = (thr1, c1)"
    by (cases "applyThreshold (key, v) (thr, c)")
  have key: "key \<notin> set objectPrototypeKeys"
    using Cons.prems(1) kv by auto
  have one: "dom thr1 = dom thr
      \<and> c1 = c + (if key \<in> dom thr \<and> isValidNumber v \<and> ge_zero v then 1 else 0)"
    using step applyThreshold_cases [OF key, of v thr c]
    by (auto simp: isValidNumber_def split: if_splits jsval.splits)
  have rest: "dom thr' = dom thr1
      \<and> c' = c1 + length (filter (\<lambda>kv. fst kv \<in> dom thr1 \<and> isValidNumber (snd kv)
                                  \<and> ge_zero (snd kv)) body)"
    using Cons.prems kv step by (intro Cons.IH) auto
  show ?case
    using one rest kv by auto
qed

lemma fold_applyThreshold_untouched:
  "set (map fst body) \<inter> set objectPrototypeKeys = {} \<Longrightarrow>
   fold applyThreshold body (thr, c) = (thr', c') \<Longrightarrow>
   \<forall>v. (k, v) \<in> set body \<longrightarrow> \<not> (isValidNumber v \<and> ge_zero v) \<Longrightarrow>
   thr' k = thr k"
proof (induction body arbitrary: thr c)
  case Nil
  then show ?case by simp
next
  case (Cons kv body)
  obtain key v where kv: "kv = (key, v)" by (cases kv)
  obtain thr1 c1 where step: "applyThreshold (key, v) (thr, c) = (thr1, c1)"
    by (cases "applyThreshold (key, v) (thr, c)")
  have key: "key \<notin> set objectPrototypeKeys"
    using Cons.prems(1) kv by auto
  have one: "thr1 k = thr k"
    using step applyThreshold_cases [OF key, of v thr c] Cons.prems(3) kv
    by (auto split: if_splits jsval.splits)
  have "thr' k = thr1 k"
    using Cons.prems kv step by (intro Cons.IH [of thr1 c1]) auto
  then show ?case
    using one by simp
qed

lemma fold_applyThreshold_applied:
  "set (map fst body) \<inter> set objectPrototypeKeys = {} \<Longrightarrow> distinct (map fst body) \<Longrightarrow>
   fold applyThreshold body (thr, c) = (thr', c') \<Longrightarrow>
   (k, JNum n) \<in> set body \<Longrightarrow> k \<in> dom thr \<Longrightarrow> isValidNumber (JNum n) \<Longrightarrow>
   num_ge n (Fin 0) \<Longrightarrow> thr' k = Some n"
proof (induction body arbitrary: thr c)
  case Nil
  then show ?case by simp
next
  case (Cons kv body)
  obtain key v where kv: "kv = (key, v)" by (cases kv)
  obtain thr1 c1 where step: "applyThreshold (key, v) (thr, c) = (thr1, c1)"
    by (cases "applyThreshold (key, v) (thr, c)")
  have key: "key \<notin> set objectPrototypeKeys"
    using Cons.prems(1) kv by auto
  have rest: "fold applyThreshold body (thr1, c1) = (thr', c')"
    using Cons.prems(3) kv step by simp
  have proto: "set (map fst body) \<inter> set objectPrototypeKeys = {}"
    using Cons.prems(1) by auto
  show ?case
  proof (cases "key = k")
    case True
    then have v: "v = JNum n" and notin: "\<forall>v'. (k, v') \<notin> set body"
      using Cons.prems(2,4) kv by (auto simp: rev_image_eqI)
    have "thr1 k = Some n"
      using step applyThreshold_applied [OF key, of thr n c] Cons.prems(5,6,7) True v
      by auto
    moreover have "thr' k = thr1 k"
      using fold_applyThreshold_untouched [OF proto rest, of k] notin by simp
    ultimately show ?thesis by simp
  next
    case False
    then have "(k, JNum n) \<in> set body"
      using Cons.prems(4) kv by auto
    moreover have "k \<in> dom thr1"
      using step applyThreshold_cases [OF key, of v thr c] Cons.prems(5) False
      by (auto split: if_splits jsval.splits)
    ultimately show ?thesis
      using Cons.prems(2,6,7) proto rest by (intro Cons.IH [of thr1 c1]) auto
  qed
qed

text \<open>
  C9. The specification states that exactly the entries that name a known field and
  carry a finite number \<open>\<ge> 0\<close> are applied and counted, and that entries for unknown
  fields are skipped. The handler
  tests \<open>changeThresholds[key] !== undefined\<close>, which also holds for a name that
  \<open>changeThresholds\<close> inherits from \<open>Object.prototype\<close>: the body
  \<open>{"constructor": 5}\<close> names no sensor field, and is applied and counted.
\<close>

theorem C9_inherited_name_is_applied:
  "postThresholds now (BodyObject [(''constructor'', JNum (Fin 5))]) initialSensorState =
     (initialSensorState\<lparr>changeThresholds := initialThresholds(''constructor'' \<mapsto> Fin 5)\<rparr>,
      ThresholdsUpdated 1 now)"
  by (simp add: postThresholds_def applyThreshold_def get_prop_def set_prop_def
      initialSensorState_def initialThresholds_def objectPrototypeKeys_def isValidNumber_def
      ge_zero_def num_ge_def num_le_def)

text \<open>The example of the specification: only the heart rate is applied, the count is 1.\<close>

lemma postThresholds_example:
  "postThresholds now
     (BodyObject [(''temp'', JNum (Fin (- 1))), (''heartrate'', JNum (Fin 5))])
     initialSensorState =
     (initialSensorState\<lparr>changeThresholds := initialThresholds(''heartrate'' \<mapsto> Fin 5)\<rparr>,
      ThresholdsUpdated 1 now)"
  by (simp add: postThresholds_def applyThreshold_def get_prop_def set_prop_def
      initialSensorState_def initialThresholds_def objectPrototypeKeys_def isValidNumber_def
      ge_zero_def num_ge_def num_le_def)

subsection \<open>Resubmitting a stored value under a zero threshold (C10)\<close>

lemma obj_set_mem: "(k, v) \<in> set (obj_set kvs k v)"
  by (induction kvs k v rule: obj_set.induct) auto

lemma obj_set_other: "k' \<noteq> k \<Longrightarrow> (k', v') \<in> set (obj_set kvs k v) \<longleftrightarrow> (k', v') \<in> set kvs"
  by (induction kvs k v rule: obj_set.induct) auto

lemma updateField_other:
  assumes "key \<noteq> f" and "updateField rnd clk (key, v) (s, ch, h) = (s', ch', h')"
  shows "latestData s' f = latestData s f \<and> changeThresholds s' = changeThresholds s
     \<and> ((f, r) \<in> set ch \<longrightarrow> (f, r) \<in> set ch') \<and> (h \<longrightarrow> h')"
  using assms
  by (auto simp: updateField_def Let_def obj_set_other split: if_splits)

lemma fold_updateField_keeps:
  "f \<notin> set (map fst kvs) \<Longrightarrow> fold (updateField rnd clk) kvs (s, ch, h) = (s', ch', h') \<Longrightarrow>
   latestData s' f = latestData s f \<and> changeThresholds s' = changeThresholds s
     \<and> ((f, r) \<in> set ch \<longrightarrow> (f, r) \<in> set ch') \<and> (h \<longrightarrow> h')"
proof (induction kvs arbitrary: s ch h)
  case Nil
  then show ?case by simp
next
  case (Cons kv kvs)
  obtain key v where kv: "kv = (key, v)" by (cases kv)
  obtain s1 ch1 h1 where step: "updateField rnd clk (key, v) (s, ch, h) = (s1, ch1, h1)"
    by (cases "updateField rnd clk (key, v) (s, ch, h)")
  have "key \<noteq> f" using Cons.prems(1) kv by auto
  note one = updateField_other [OF this step, of r]
  have "latestData s' f = latestData s1 f \<and> changeThresholds s' = changeThresholds s1
     \<and> ((f, r) \<in> set ch1 \<longrightarrow> (f, r) \<in> set ch') \<and> (h1 \<longrightarrow> h')"
    using Cons.prems kv step by (intro Cons.IH) auto
  then show ?case using one by auto
qed

lemma updateField_hit:
  assumes "nv \<noteq> JUndefined" and "nv \<noteq> JNull"
    and "hasDataChanged rnd (changeThresholds s) f nv (oldValueOf (latestData s f))"
  shows "updateField rnd clk (f, nv) (s, ch, h) =
     (s\<lparr>latestData := (latestData s)(f \<mapsto> \<lparr>r_value = nv, r_timestamp = clk f\<rparr>)\<rparr>,
      obj_set ch f \<lparr>r_value = nv, r_timestamp = clk f\<rparr>, True)"
  using assms by (simp add: updateField_def Let_def)

lemma fold_updateField_hit:
  "(f, nv) \<in> set kvs \<Longrightarrow> distinct (map fst kvs) \<Longrightarrow> nv \<noteq> JUndefined \<Longrightarrow> nv \<noteq> JNull \<Longrightarrow>
   hasDataChanged rnd (changeThresholds s) f nv (oldValueOf (latestData s f)) \<Longrightarrow>
   fold (updateField rnd clk) kvs (s, ch, h) = (s', ch', h') \<Longrightarrow>
   latestData s' f = Some \<lparr>r_value = nv, r_timestamp = clk f\<rparr>
     \<and> (f, \<lparr>r_value = nv, r_timestamp = clk f\<rparr>) \<in> set ch' \<and> h'"
proof (induction kvs arbitrary: s ch h)
  case Nil
  then show ?case by simp
next
  case (Cons kv kvs)
  obtain key v where kv: "kv = (key, v)" by (cases kv)
  obtain s1 ch1 h1 where step: "updateField rnd clk (key, v) (s, ch, h) = (s1, ch1, h1)"
    by (cases "updateField rnd clk (key, v) (s, ch, h)")
  have rest: "fold (updateField rnd clk) kvs (s1, ch1, h1) = (s', ch', h')"
    using Cons.prems(6) kv step by simp
  show ?case
  proof (cases "key = f")
    case True
    then have v: "v = nv" and notin: "f \<notin> set (map fst kvs)"
      using Cons.prems(1,2) kv by (auto simp: rev_image_eqI)
    have one: "s1 = s\<lparr>latestData := (latestData s)(f \<mapsto> \<lparr>r_value = nv, r_timestamp = clk f\<rparr>)\<rparr>"
      "ch1 = obj_set ch f \<lparr>r_value = nv, r_timestamp = clk f\<rparr>" "h1"
      using step updateField_hit [OF Cons.prems(3,4,5), of clk ch h] True v by simp_all
    show ?thesis
      using fold_updateField_keeps [OF notin rest, of "\<lparr>r_value = nv, r_timestamp = clk f\<rparr>"]
        one obj_set_mem [of f "\<lparr>r_value = nv, r_timestamp = clk f\<rparr>" ch]
      by simp
  next
    case False
    note one = updateField_other [OF False step, of undefined]
    have "(f, nv) \<in> set kvs" using Cons.prems(1) kv False by auto
    moreover have "distinct (map fst kvs)" using Cons.prems(2) by simp
    moreover have "hasDataChanged rnd (changeThresholds s1) f nv (oldValueOf (latestData s1 f))"
      using Cons.prems(5) one by simp
    ultimately show ?thesis
      using Cons.prems(3,4) rest by (intro Cons.IH [of s1 ch1 h1]) auto
  qed
qed

lemma receivedDataOf_distinct: "distinct (map fst (receivedDataOf d))"
  by (simp add: receivedDataOf_def)

lemma postThresholds_zero:
  "f \<notin> set objectPrototypeKeys \<Longrightarrow> changeThresholds s f \<noteq> None \<Longrightarrow>
   changeThresholds (fst (postThresholds now (BodyObject [(f, JNum (Fin 0))]) s)) f
     = Some (Fin 0)"
  by (auto simp: postThresholds_def applyThreshold_def get_prop_def set_prop_def
      isValidNumber_def ge_zero_def num_ge_def num_le_def)

lemma postData_resubmitted:
  assumes thr: "changeThresholds s f = Some (Fin 0)"
    and stored: "latestData s f = Some \<lparr>r_value = JNum (Fin v), r_timestamp = t0\<rparr>"
    and valid: "validateSensorData d = []"
    and sub: "(f, JNum (Fin v)) \<in> set (receivedDataOf d)"
  shows "\<exists>s' changes. postData rnd clk now (Some d) s = (s', DataProcessed changes now)
     \<and> (f, \<lparr>r_value = JNum (Fin v), r_timestamp = clk f\<rparr>) \<in> set changes
     \<and> latestData s' f = Some \<lparr>r_value = JNum (Fin v), r_timestamp = clk f\<rparr>"
proof -
  obtain s' ch' h' where run:
    "fold (updateField rnd clk) (receivedDataOf d) (s, [], False) = (s', ch', h')"
    by (cases "fold (updateField rnd clk) (receivedDataOf d) (s, [], False)")
  have sig: "hasDataChanged rnd (changeThresholds s) f (JNum (Fin v)) (oldValueOf (latestData s f))"
    using thr stored hasDataChanged_same [of "changeThresholds s" f 0 rnd v]
    by (simp add: oldValueOf_def)
  have hit: "latestData s' f = Some \<lparr>r_value = JNum (Fin v), r_timestamp = clk f\<rparr>
     \<and> (f, \<lparr>r_value = JNum (Fin v), r_timestamp = clk f\<rparr>) \<in> set ch' \<and> h'"
    using fold_updateField_hit [OF sub receivedDataOf_distinct _ _ sig run] by simp
  have "receivedDataOf d \<noteq> []" using sub by auto
  then have "postData rnd clk now (Some d) s = (s', DataProcessed ch' now)"
    using valid run hit by (simp add: postData_def updateChangedFields_def)
  then show ?thesis using hit by blast
qed

text \<open>
  C10. Setting the threshold of a field to 0 stores 0. With a threshold of 0 for a field
  that holds the number \<open>v\<close>, every accepted submission that carries \<open>v\<close> again for
  that field is a significant change (\<open>v - v\<close> is 0 whatever the rounding, and
  \<open>0 \<ge> 0\<close>): the answer lists the
  field among the changes and the stored reading gets the clock reading of this
  submission as its timestamp, which is later than the old one when the clock has moved
  on. A field of a valid submission that carries a number is a numeric field.
\<close>

theorem C10_zero_threshold_resubmission:
  "(f \<notin> set objectPrototypeKeys \<and> changeThresholds s0 f \<noteq> None \<longrightarrow>
      changeThresholds (fst (postThresholds now0 (BodyObject [(f, JNum (Fin 0))]) s0)) f
        = Some (Fin 0))
   \<and> (changeThresholds s f = Some (Fin 0)
        \<and> latestData s f = Some \<lparr>r_value = JNum (Fin v), r_timestamp = t0\<rparr>
        \<and> validateSensorData d = [] \<and> (f, JNum (Fin v)) \<in> set (receivedDataOf d)
      \<longrightarrow> (\<exists>s' changes. postData rnd clk now (Some d) s = (s', DataProcessed changes now)
            \<and> (f, \<lparr>r_value = JNum (Fin v), r_timestamp = clk f\<rparr>) \<in> set changes
            \<and> latestData s' f = Some \<lparr>r_value = JNum (Fin v), r_timestamp = clk f\<rparr>
            \<and> (t0 < clk f \<longrightarrow> (\<forall>r. latestData s' f = Some r \<longrightarrow> t0 < r_timestamp r))))"
  using postThresholds_zero [of f s0 now0]
    postData_resubmitted [where s = s and f = f and v = v and ?t0.0 = t0 and d = d
      and rnd = rnd and clk = clk and now = now]
  by fastforce


theorem C10_zero_threshold_resubmission_witness:
  "changeThresholds (fst (postThresholds 150 (BodyObject [(''temp'', JNum (Fin 0))])
       \<lparr>latestData = [''temp'' \<mapsto> \<lparr>r_value = JNum (Fin 36.5), r_timestamp = 100\<rparr>],
        changeThresholds = initialThresholds\<rparr>)) ''temp'' = Some (Fin 0)
   \<and> snd (postData Fin (\<lambda>k. 200) 250
        (Some \<lparr>d_temp = JNum (Fin 36.5), d_heartrate = JUndefined, d_movement = JUndefined,
               d_lat = JUndefined, d_lon = JUndefined\<rparr>)
        \<lparr>latestData = [''temp'' \<mapsto> \<lparr>r_value = JNum (Fin 36.5), r_timestamp = 100\<rparr>],
         changeThresholds = initialThresholds(''temp'' \<mapsto> Fin 0)\<rparr>)
       = DataProcessed [(''temp'', \<lparr>r_value = JNum (Fin 36.5), r_timestamp = 200\<rparr>)] 250
   \<and> latestData (fst (postData Fin (\<lambda>k. 200) 250
        (Some \<lparr>d_temp = JNum (Fin 36.5), d_heartrate = JUndefined, d_movement = JUndefined,
               d_lat = JUndefined, d_lon = JUndefined\<rparr>)
        \<lparr>latestData = [''temp'' \<mapsto> \<lparr>r_value = JNum (Fin 36.5), r_timestamp = 100\<rparr>],
         changeThresholds = initialThresholds(''temp'' \<mapsto> Fin 0)\<rparr>)) ''temp''
       = Some \<lparr>r_value = JNum (Fin 36.5), r_timestamp = 200\<rparr>
   \<and> snd (postData Fin (\<lambda>k. 200) 250
        (Some \<lparr>d_temp = JNum (Fin 36.5), d_heartrate = JUndefined, d_movement = JUndefined,
               d_lat = JUndefined, d_lon = JUndefined\<rparr>)
        \<lparr>latestData = [''temp'' \<mapsto> \<lparr>r_value = JNum (Fin 36.5), r_timestamp = 100\<rparr>],
         changeThresholds = initialThresholds\<rparr>)
       = DataNoChange 250"
proof -
  let ?d = "\<lparr>d_temp = JNum (Fin 36.5), d_heartrate = JUndefined, d_movement = JUndefined,
               d_lat = JUndefined, d_lon = JUndefined\<rparr>"
  let ?before = "\<lparr>latestData = [''temp'' \<mapsto> \<lparr>r_value = JNum (Fin 36.5), r_timestamp = 100\<rparr>],
        changeThresholds = initialThresholds\<rparr>"
  let ?zero = "\<lparr>latestData = [''temp'' \<mapsto> \<lparr>r_value = JNum (Fin 36.5), r_timestamp = 100\<rparr>],
        changeThresholds = initialThresholds(''temp'' \<mapsto> Fin 0)\<rparr>"
  have h1: "''temp'' \<notin> set objectPrototypeKeys \<and> changeThresholds ?before ''temp'' \<noteq> None"
    by (simp add: objectPrototypeKeys_def initialThresholds_def)
  have h2: "changeThresholds ?zero ''temp'' = Some (Fin 0)
        \<and> latestData ?zero ''temp'' = Some \<lparr>r_value = JNum (Fin 36.5), r_timestamp = 100\<rparr>
        \<and> validateSensorData ?d = [] \<and> (''temp'', JNum (Fin 36.5)) \<in> set (receivedDataOf ?d)"
    by (simp add: validateSensorData_def receivedDataOf_def isValidNumber_def)
  have nochange: "snd (postData Fin (\<lambda>k. 200) 250 (Some ?d) ?before) = DataNoChange 250"
    by (simp add: postData_def validateSensorData_def receivedDataOf_def isValidNumber_def
        updateChangedFields_def updateField_def hasDataChanged_def oldValueOf_def
        is_number_def get_prop_def ge_threshold_def num_ge_def num_le_def
        initialThresholds_def Let_def to_double_def)
  have change: "snd (postData Fin (\<lambda>k. 200) 250 (Some ?d) ?zero)
       = DataProcessed [(''temp'', \<lparr>r_value = JNum (Fin 36.5), r_timestamp = 200\<rparr>)] 250"
    by (simp add: postData_def validateSensorData_def receivedDataOf_def isValidNumber_def
        updateChangedFields_def updateField_def hasDataChanged_def oldValueOf_def
        is_number_def get_prop_def ge_threshold_def num_ge_def num_le_def
        initialThresholds_def Let_def to_double_def)
  from C10_zero_threshold_resubmission
      [where f = "''temp''" and ?s0.0 = ?before and ?now0.0 = 150 and s = ?zero
        and v = "36.5" and ?t0.0 = 100 and d = ?d and rnd = Fin and clk = "\<lambda>k. 200"
        and now = 250]
  have "changeThresholds (fst (postThresholds 150 (BodyObject [(''temp'', JNum (Fin 0))]) ?before))
          ''temp'' = Some (Fin 0)"
    and "\<exists>s' changes. postData Fin (\<lambda>k. 200) 250 (Some ?d) ?zero = (s', DataProcessed changes 250)
            \<and> latestData s' ''temp'' = Some \<lparr>r_value = JNum (Fin 36.5), r_timestamp = 200\<rparr>"
    using h1 h2 by blast+
  then show ?thesis
    using nochange change by auto
qed

end
